theory Spec2Isabelle
  imports
    Complex_Main
    "HOL-Library.Word"
    "HOL-Library.Char_ord"
    "HOL-Library.List_Lexorder"
    "HOL-Library.Multiset"
    "HOL-Library.Log_Nat"
begin

section \<open>The iSmart backend (\<^verbatim>\<open>src/server.js\<close>) as a shallow embedding\<close>

text \<open>
  The server is one Express module: a verifier for Telegram WebApp \<^verbatim>\<open>initData\<close>, and five
  routes over three tables of an external store (users, ad\_events, withdraw\_requests).

  Conventions of the model.
  \<^item> A JavaScript string is a \<^typ>\<open>string\<close>; its characters stand for code units, ordered
    by their code as \<^verbatim>\<open>Array.prototype.sort\<close> orders them (code units above 255 are not
    represented).
  \<^item> Library functions the module imports (the query-string parser, SHA-256, HMAC,
    \<^verbatim>\<open>JSON.parse\<close>, the number formatter, \<^verbatim>\<open>jwt.sign\<close>) are fields of a record
    \<open>platform\<close>; every theorem holds for each choice of them.
  \<^item> A JavaScript number is the rational it stands for, and an operation on numbers rounds
    its exact result to the nearest binary64 value, ties to even (\<open>binary64\<close>); infinities
    and NaN are not represented. The reward route computes with such numbers: timestamps
    are integer milliseconds, the cooldown is the number written in the environment, the
    reward and the balance are integers read as numbers.
  \<^item> In the withdraw route amounts and balances are integers, on which the comparison and
    the subtraction of the code are taken exactly.
  \<^item> A thrown exception is the \<open>Inl\<close> of a sum type, \<^verbatim>\<open>null\<close> returned by the verifier is
    \<open>None\<close>.
  \<^item> Each \<^verbatim>\<open>await\<close> on the store is one atomic step. The only answer of the store the
    module looks at for an error is that of the update of the reward route (line 100);
    that answer is an input of the request, and the other store calls do not fail.
  \<^item> The file at hand has lost the backquotes of its two template literals (lines 29
    and 116) and the two \<^verbatim>\<open>||\<close> of line 109; they are read as
    \<^verbatim>\<open>`${k}=${data[k]}`\<close>, \<^verbatim>\<open>`min ${minCoins} coins`\<close> and
    \<^verbatim>\<open>!method || !account || !amount_coins\<close>.
\<close>

subsection \<open>JavaScript values\<close>

datatype exn = SyntaxError | TypeError

datatype 'n jsval =
    JUndefined
  | JNull
  | JBool bool
  | JNum 'n
  | JStr string
  | JArr "'n jsval list"
  | JObj "(string \<times> 'n jsval) list"

record ('k, 'n) platform =
  sha256 :: "string \<Rightarrow> 'k"
  createHmac_hex :: "'k \<Rightarrow> string \<Rightarrow> string"
  URLSearchParams :: "string \<Rightarrow> (string \<times> string) list"
  JSON_parse :: "string \<Rightarrow> 'n jsval option"
  Number_toString :: "'n \<Rightarrow> string"
  Number_truthy :: "'n \<Rightarrow> bool"
  jwt_sign :: "string \<Rightarrow> string"

text \<open>\<^verbatim>\<open>xs.join(sep)\<close> on strings.\<close>

fun join :: "string \<Rightarrow> string list \<Rightarrow> string" where
  "join sep [] = []"
| "join sep [x] = x"
| "join sep (x # y # ys) = x @ sep @ join sep (y # ys)"

text \<open>
  \<^verbatim>\<open>String(v)\<close>, which is also what \<^verbatim>\<open>'@' + v\<close> and \<^verbatim>\<open>join\<close> apply to a value that
  came out of \<^verbatim>\<open>JSON.parse\<close>: an array prints its elements separated by commas, with
  \<^verbatim>\<open>null\<close> and \<^verbatim>\<open>undefined\<close> elements empty; an object prints as \<^verbatim>\<open>[object Object]\<close>.
\<close>

fun js_String :: "('n \<Rightarrow> string) \<Rightarrow> 'n jsval \<Rightarrow> string" where
  "js_String f JUndefined = ''undefined''"
| "js_String f JNull = ''null''"
| "js_String f (JBool b) = (if b then ''true'' else ''false'')"
| "js_String f (JNum n) = f n"
| "js_String f (JStr s) = s"
| "js_String f (JArr xs) =
     join '','' (map (\<lambda>x. if x = JUndefined \<or> x = JNull then [] else js_String f x) xs)"
| "js_String f (JObj kvs) = ''[object Object]''"

text \<open>\<^verbatim>\<open>Boolean(v)\<close>.\<close>

fun js_truthy :: "('n \<Rightarrow> bool) \<Rightarrow> 'n jsval \<Rightarrow> bool" where
  "js_truthy t JUndefined = False"
| "js_truthy t JNull = False"
| "js_truthy t (JBool b) = b"
| "js_truthy t (JNum n) = t n"
| "js_truthy t (JStr s) = (s \<noteq> [])"
| "js_truthy t (JArr xs) = True"
| "js_truthy t (JObj kvs) = True"

text \<open>
  \<^verbatim>\<open>v.k\<close> for the keys the module reads (\<^verbatim>\<open>id\<close>, \<^verbatim>\<open>first_name\<close>, \<^verbatim>\<open>last_name\<close>,
  \<^verbatim>\<open>username\<close>): an own property of an object, \<^verbatim>\<open>undefined\<close> on any other value, and a
  TypeError on \<^verbatim>\<open>null\<close> and \<^verbatim>\<open>undefined\<close>.
\<close>

fun js_get :: "'n jsval \<Rightarrow> string \<Rightarrow> exn + 'n jsval" where
  "js_get JUndefined k = Inl TypeError"
| "js_get JNull k = Inl TypeError"
| "js_get (JObj kvs) k = (case map_of kvs k of None \<Rightarrow> Inr JUndefined | Some v \<Rightarrow> Inr v)"
| "js_get v k = Inr JUndefined"

text \<open>
  A plain object with string values, as \<^verbatim>\<open>Object.fromEntries\<close> builds it: one entry per
  key, a later entry for a key replacing the value of the earlier one.
\<close>

fun obj_set :: "(string \<times> 'v) list \<Rightarrow> string \<Rightarrow> 'v \<Rightarrow> (string \<times> 'v) list" where
  "obj_set [] k v = [(k, v)]"
| "obj_set ((k', v') # kvs) k v =
     (if k' = k then (k', v) # kvs else (k', v') # obj_set kvs k v)"

definition Object_fromEntries :: "(string \<times> 'v) list \<Rightarrow> (string \<times> 'v) list" where
  "Object_fromEntries es = foldl (\<lambda>obj (k, v). obj_set obj k v) [] es"

definition Object_keys :: "(string \<times> 'v) list \<Rightarrow> string list" where
  "Object_keys obj = map fst obj"

subsection \<open>Numbers\<close>

text \<open>
  Rounding to the nearest binary64 value: \<open>ulp_exp x\<close> is the exponent of the last place
  of a double of the magnitude of \<open>x\<close> (52 places below the leading bit, and no lower
  than the subnormal exponent \<open>-1074\<close>), and \<open>x\<close> is rounded to the nearest multiple of
  \<open>2 powi ulp_exp x\<close>, half-way cases to the even multiple.
\<close>

definition round_half_even :: "rat \<Rightarrow> int" where
  "round_half_even t =
     (let f = \<lfloor>t\<rfloor>; r = t - of_int f
      in if r < 1 / 2 then f else if 1 / 2 < r then f + 1 else if even f then f else f + 1)"

definition floor_log2 :: "rat \<Rightarrow> int" where
  "floor_log2 x = (if 1 \<le> x then bitlen \<lfloor>x\<rfloor> - 1 else - bitlen (\<lceil>1 / x\<rceil> - 1))"

definition ulp_exp :: "rat \<Rightarrow> int" where
  "ulp_exp x = max (floor_log2 \<bar>x\<bar> - 52) (- 1074)"

definition binary64 :: "rat \<Rightarrow> rat" where
  "binary64 x =
     (if x = 0 then 0
      else of_int (round_half_even (x / 2 powi ulp_exp x)) * 2 powi ulp_exp x)"

text \<open>\<^verbatim>\<open>a + b\<close>, \<^verbatim>\<open>a - b\<close> and \<^verbatim>\<open>a / b\<close> on numbers, and an integer read as a number.\<close>

definition js_plus :: "rat \<Rightarrow> rat \<Rightarrow> rat" where
  "js_plus a b = binary64 (a + b)"

definition js_minus :: "rat \<Rightarrow> rat \<Rightarrow> rat" where
  "js_minus a b = binary64 (a - b)"

definition js_div :: "rat \<Rightarrow> rat \<Rightarrow> rat" where
  "js_div a b = binary64 (a / b)"

definition js_number :: "int \<Rightarrow> rat" where
  "js_number i = binary64 (of_int i)"

subsection \<open>Configuration\<close>

record config =
  BOT_TOKEN :: string
  COOLDOWN_SEC :: rat
  REWARD_PER_AD :: int
  COINS_PER_USDT :: int
  MIN_WITHDRAW_USDT :: int
  ADMIN_IDS :: string

definition SECRET_KEY :: "('k, 'n) platform \<Rightarrow> config \<Rightarrow> 'k" where
  "SECRET_KEY p c = sha256 p (BOT_TOKEN c)"

subsection \<open>\<^verbatim>\<open>verifyTelegramInitData\<close>\<close>

record identity =
  id' :: string
  name :: string
  username :: string
  email :: string

text \<open>
  \<^verbatim>\<open>Object.keys(data).sort().map(k => `${k}=${data[k]}`).join('\n')\<close>, where \<open>data\<close>
  is the parsed object without its \<^verbatim>\<open>hash\<close> property.
\<close>

definition dataCheckString :: "(string \<times> string) list \<Rightarrow> string" where
  "dataCheckString data =
     join [CHR 0x0A]
       (map (\<lambda>k. k @ ''='' @ (case map_of data k of None \<Rightarrow> ''undefined'' | Some v \<Rightarrow> v))
            (sort (Object_keys data)))"

definition rest_without_hash :: "(string \<times> string) list \<Rightarrow> (string \<times> string) list" where
  "rest_without_hash parsed = filter (\<lambda>(k, v). k \<noteq> ''hash'') parsed"

definition make_identity :: "('k, 'n) platform \<Rightarrow> 'n jsval \<Rightarrow> exn + identity" where
  "make_identity p user =
     (case js_get user ''id'' of Inl e \<Rightarrow> Inl e | Inr uid \<Rightarrow>
     (case js_get user ''first_name'' of Inl e \<Rightarrow> Inl e | Inr first_name \<Rightarrow>
     (case js_get user ''last_name'' of Inl e \<Rightarrow> Inl e | Inr last_name \<Rightarrow>
     (case js_get user ''username'' of Inl e \<Rightarrow> Inl e | Inr uname \<Rightarrow>
        Inr \<lparr> id' = js_String (Number_toString p) uid,
              name =
                (let s = join '' ''
                       (map (js_String (Number_toString p))
                          (filter (js_truthy (Number_truthy p)) [first_name, last_name]))
                 in if s = [] then ''Guest'' else s),
              username =
                (if js_truthy (Number_truthy p) uname
                 then ''@'' @ js_String (Number_toString p) uname else []),
              email = [] \<rparr>))))"

definition verifyTelegramInitData ::
  "('k, 'n) platform \<Rightarrow> config \<Rightarrow> string \<Rightarrow> exn + identity option" where
  "verifyTelegramInitData p c initData =
     (let parsed = Object_fromEntries (URLSearchParams p initData);
          hash = map_of parsed ''hash'';
          data = rest_without_hash parsed;
          hmac = createHmac_hex p (SECRET_KEY p c) (dataCheckString data)
      in if Some hmac \<noteq> hash then Inr None
         else
           (case JSON_parse p
                   (case map_of data ''user'' of
                      None \<Rightarrow> ''{}''
                    | Some u \<Rightarrow> if u = [] then ''{}'' else u) of
              None \<Rightarrow> Inl SyntaxError
            | Some user \<Rightarrow>
                (case make_identity p user of
                   Inl e \<Rightarrow> Inl e
                 | Inr i \<Rightarrow> Inr (Some i))))"

subsection \<open>The store\<close>

text \<open>
  The three tables. A user row carries the identity columns and the two ledger columns;
  \<open>None\<close> in a ledger column is SQL \<^verbatim>\<open>NULL\<close>; \<open>last_ad_at\<close> is in milliseconds.
  The schema is not part of the module: the column defaults of a new row and the id the
  store gives a new request are the fields of \<open>schema\<close>.
\<close>

record user_row = identity +
  balance :: "int option"
  last_ad_at :: "int option"

record withdraw_request =
  request_id :: string
  user_id :: string
  method' :: string
  account :: string
  amount_coins :: int
  status :: string

record store =
  users :: "string \<rightharpoonup> user_row"
  ad_events :: "(string \<times> int) list"
  withdraw_requests :: "withdraw_request list"

record schema =
  balance_default :: "int option"
  last_ad_at_default :: "int option"
  status_default :: string
  new_request_id :: "withdraw_request list \<Rightarrow> string"

text \<open>\<^verbatim>\<open>supabase.from('users').upsert({id, name, username, email}, {onConflict: 'id'})\<close>:
  a row with that id has the four columns overwritten, otherwise a row is inserted with
  the defaults in the other columns.\<close>

definition users_upsert :: "schema \<Rightarrow> identity \<Rightarrow> store \<Rightarrow> store" where
  "users_upsert sch u s =
     (case users s (id' u) of
        None \<Rightarrow>
          s\<lparr>users := (users s)(id' u \<mapsto>
              \<lparr>id' = id' u, name = name u, username = username u, email = email u,
               balance = balance_default sch, last_ad_at = last_ad_at_default sch\<rparr>)\<rparr>
      | Some r \<Rightarrow>
          s\<lparr>users := (users s)(id' u \<mapsto>
              r\<lparr>id' := id' u, name := name u, username := username u, email := email u\<rparr>)\<rparr>)"

text \<open>\<^verbatim>\<open>supabase.from('users').update(...).eq('id', uid)\<close> changes the row when there is one.\<close>

definition users_update_eq :: "string \<Rightarrow> (user_row \<Rightarrow> user_row) \<Rightarrow> store \<Rightarrow> store" where
  "users_update_eq uid f s =
     (case users s uid of None \<Rightarrow> s | Some r \<Rightarrow> s\<lparr>users := (users s)(uid \<mapsto> f r)\<rparr>)"

text \<open>\<^verbatim>\<open>x || 0\<close> on a nullable number.\<close>

definition or0 :: "int option \<Rightarrow> int" where
  "or0 x = (case x of None \<Rightarrow> 0 | Some v \<Rightarrow> v)"

subsection \<open>\<^verbatim>\<open>POST /api/auth\<close>\<close>

datatype auth_response =
    AuthOk string "user_row option"   \<comment> \<open>200 \<^verbatim>\<open>{token, profile}\<close>\<close>
  | MissingInitData                   \<comment> \<open>400\<close>
  | BadSignature                      \<comment> \<open>401\<close>

text \<open>
  The handler between its awaits: it is about to upsert the verified user, to select the
  row, or it is done. \<open>auth_start\<close> is the code before the first await.
\<close>

datatype auth_pc =
    AuthUpsert identity
  | AuthSelect identity
  | AuthDone "exn + auth_response"

definition auth_start :: "('k, 'n) platform \<Rightarrow> config \<Rightarrow> string option \<Rightarrow> auth_pc" where
  "auth_start p c initData =
     (case initData of
        None \<Rightarrow> AuthDone (Inr MissingInitData)
      | Some d \<Rightarrow>
          if d = [] then AuthDone (Inr MissingInitData)
          else
            (case verifyTelegramInitData p c d of
               Inl e \<Rightarrow> AuthDone (Inl e)
             | Inr None \<Rightarrow> AuthDone (Inr BadSignature)
             | Inr (Some user) \<Rightarrow> AuthUpsert user))"

fun auth_step ::
  "('k, 'n) platform \<Rightarrow> schema \<Rightarrow> auth_pc \<Rightarrow> store \<Rightarrow> auth_pc \<times> store" where
  "auth_step p sch (AuthUpsert user) s = (AuthSelect user, users_upsert sch user s)"
| "auth_step p sch (AuthSelect user) s =
     (AuthDone (Inr (AuthOk (jwt_sign p (id' user)) (users s (id' user)))), s)"
| "auth_step p sch (AuthDone r) s = (AuthDone r, s)"

text \<open>The whole handler, served with no other request in between.\<close>

definition api_auth ::
  "('k, 'n) platform \<Rightarrow> config \<Rightarrow> schema \<Rightarrow> string option \<Rightarrow> store \<Rightarrow> auth_pc \<times> store" where
  "api_auth p c sch initData s =
     (case auth_step p sch (auth_start p c initData) s of
        (pc, s') \<Rightarrow> auth_step p sch pc s')"

subsection \<open>\<^verbatim>\<open>POST /api/reward/ad\<close>\<close>

text \<open>
  Lines 91 to 95: with \<open>COOLDOWN\<close> the number \<^verbatim>\<open>Number(process.env.COOLDOWN_SEC || 10)\<close>
  and \<open>last'\<close> the row's \<^verbatim>\<open>last_ad_at\<close>, the result is \<open>Some left\<close> when the handler
  answers 429 and \<open>None\<close> when it goes on to credit. \<^verbatim>\<open>(now - last) / 1000\<close> is a
  subtraction and a division of numbers, \<^verbatim>\<open>COOLDOWN - ...\<close> a second subtraction.
\<close>

definition cooldown_left :: "rat \<Rightarrow> int \<Rightarrow> int option \<Rightarrow> int option" where
  "cooldown_left COOLDOWN now last' =
     (case last' of
        None \<Rightarrow> None
      | Some l \<Rightarrow>
          (let elapsed = js_div (js_minus (of_int now) (of_int l)) 1000
           in if elapsed < COOLDOWN then Some \<lceil>js_minus COOLDOWN elapsed\<rceil> else None))"

text \<open>
  Line 98, \<^verbatim>\<open>(user.balance || 0) + REWARD\<close>: the sum of two integers read as numbers,
  which is a number with an integer value, as the store receives it.
\<close>

definition reward_sum :: "int \<Rightarrow> int \<Rightarrow> int" where
  "reward_sum b r = \<lfloor>js_plus (js_number b) (js_number r)\<rfloor>"

datatype reward_response =
    RewardOk "int option" "int option"   \<comment> \<open>200 \<^verbatim>\<open>{balance, last_ad_at}\<close>\<close>
  | RewardCooldown int                   \<comment> \<open>429 \<^verbatim>\<open>{error: 'cooldown', left}\<close>\<close>
  | RewardError string                   \<comment> \<open>500 \<^verbatim>\<open>{error: uerr.message}\<close>\<close>

text \<open>
  The handler between its awaits: it is about to select the user, to update the row with
  the balance it computed, to insert the ad event, to select the row again, or it is done.
  \<open>uerr\<close> is the error the store answers the update with, if any; an update answered
  with an error has changed nothing.
\<close>

datatype reward_pc =
    RewardSelect
  | RewardUpdate int
  | RewardInsert
  | RewardReselect
  | RewardDone "exn + reward_response"

fun reward_step ::
  "config \<Rightarrow> string \<Rightarrow> int \<Rightarrow> string option \<Rightarrow> reward_pc \<Rightarrow> store
     \<Rightarrow> reward_pc \<times> store" where
  "reward_step c uid now uerr RewardSelect s =
     (let user = users s uid;
          last' = (case user of None \<Rightarrow> None | Some u \<Rightarrow> last_ad_at u)
      in case cooldown_left (binary64 (COOLDOWN_SEC c)) now last' of
           Some left \<Rightarrow> (RewardDone (Inr (RewardCooldown left)), s)
         | None \<Rightarrow>
             (case user of
                None \<Rightarrow> (RewardDone (Inl TypeError), s)
              | Some u \<Rightarrow>
                  (RewardUpdate (reward_sum (or0 (balance u)) (REWARD_PER_AD c)), s)))"
| "reward_step c uid now uerr (RewardUpdate b) s =
     (case uerr of
        Some msg \<Rightarrow> (RewardDone (Inr (RewardError msg)), s)
      | None \<Rightarrow>
          (RewardInsert,
           users_update_eq uid (\<lambda>r. r\<lparr>balance := Some b, last_ad_at := Some now\<rparr>) s))"
| "reward_step c uid now uerr RewardInsert s =
     (RewardReselect,
      s\<lparr>ad_events := ad_events s @ [(uid, \<lfloor>js_number (REWARD_PER_AD c)\<rfloor>)]\<rparr>)"
| "reward_step c uid now uerr RewardReselect s =
     (case users s uid of
        None \<Rightarrow> (RewardDone (Inl TypeError), s)
      | Some updated \<Rightarrow> (RewardDone (Inr (RewardOk (balance updated) (last_ad_at updated))), s))"
| "reward_step c uid now uerr (RewardDone r) s = (RewardDone r, s)"

subsection \<open>\<^verbatim>\<open>POST /api/withdraw\<close>\<close>

text \<open>\<^verbatim>\<open>x|0\<close>: the integer taken modulo \<open>2^32\<close> into the signed 32-bit range.\<close>

definition ToInt32 :: "int \<Rightarrow> int" where
  "ToInt32 x = sint (word_of_int x :: 32 word)"

datatype withdraw_response =
    WithdrawOk           \<comment> \<open>200 \<^verbatim>\<open>{ok: true}\<close>\<close>
  | MissingFields        \<comment> \<open>400 \<^verbatim>\<open>missing fields\<close>\<close>
  | BelowMinimum int     \<comment> \<open>400 \<^verbatim>\<open>min ${minCoins} coins\<close>\<close>
  | InsufficientBalance  \<comment> \<open>400 \<^verbatim>\<open>insufficient balance\<close>\<close>

text \<open>
  Lines 111 to 117 on the selected row: \<open>Some\<close> of the answer when the handler stops
  there, \<open>None\<close> when the request is admitted.
\<close>

definition withdraw_admission ::
  "config \<Rightarrow> int \<Rightarrow> user_row option \<Rightarrow> (exn + withdraw_response) option" where
  "withdraw_admission c amount user =
     (let minCoins = COINS_PER_USDT c * MIN_WITHDRAW_USDT c
      in if ToInt32 amount < minCoins then Some (Inr (BelowMinimum minCoins))
         else
           (case user of
              None \<Rightarrow> Some (Inl TypeError)
            | Some u \<Rightarrow>
                if or0 (balance u) < amount then Some (Inr InsufficientBalance) else None))"

record withdraw_body =
  body_method :: "string option"
  body_account :: "string option"
  body_amount_coins :: "int option"

datatype withdraw_pc =
    WithdrawSelect string string int
  | WithdrawInsert string string int "int option"
  | WithdrawUpdate int
  | WithdrawDone "exn + withdraw_response"

text \<open>Line 109, \<^verbatim>\<open>!method || !account || !amount_coins\<close>, before the first await.\<close>

definition withdraw_start :: "withdraw_body \<Rightarrow> withdraw_pc" where
  "withdraw_start b =
     (case (body_method b, body_account b, body_amount_coins b) of
        (Some m, Some a, Some n) \<Rightarrow>
          if m = [] \<or> a = [] \<or> n = 0 then WithdrawDone (Inr MissingFields)
          else WithdrawSelect m a n
      | _ \<Rightarrow> WithdrawDone (Inr MissingFields))"

fun withdraw_step ::
  "config \<Rightarrow> schema \<Rightarrow> string \<Rightarrow> withdraw_pc \<Rightarrow> store \<Rightarrow> withdraw_pc \<times> store" where
  "withdraw_step c sch uid (WithdrawSelect m a n) s =
     (case withdraw_admission c n (users s uid) of
        Some r \<Rightarrow> (WithdrawDone r, s)
      | None \<Rightarrow>
          (case users s uid of
             None \<Rightarrow> (WithdrawDone (Inl TypeError), s)
           | Some u \<Rightarrow> (WithdrawInsert m a n (balance u), s)))"
| "withdraw_step c sch uid (WithdrawInsert m a n b) s =
     (WithdrawUpdate (or0 b - n),
      s\<lparr>withdraw_requests := withdraw_requests s @
           [\<lparr>request_id = new_request_id sch (withdraw_requests s), user_id = uid,
             method' = m, account = a, amount_coins = n, status = status_default sch\<rparr>]\<rparr>)"
| "withdraw_step c sch uid (WithdrawUpdate b) s =
     (WithdrawDone (Inr WithdrawOk), users_update_eq uid (\<lambda>r. r\<lparr>balance := Some b\<rparr>) s)"
| "withdraw_step c sch uid (WithdrawDone r) s = (WithdrawDone r, s)"

subsection \<open>\<^verbatim>\<open>POST /api/admin/withdraw/:id/:action\<close>\<close>

fun split_on :: "char \<Rightarrow> string \<Rightarrow> string list" where
  "split_on c [] = [[]]"
| "split_on c (x # xs) =
     (if x = c then [] # split_on c xs
      else (case split_on c xs of [] \<Rightarrow> [[x]] | y # ys \<Rightarrow> (x # y) # ys))"

definition js_whitespace :: "char \<Rightarrow> bool" where
  "js_whitespace ch =
     (ch \<in> set [CHR 0x09, CHR 0x0A, CHR 0x0B, CHR 0x0C, CHR 0x0D, CHR 0x20, CHR 0xA0])"

definition trim :: "string \<Rightarrow> string" where
  "trim s = rev (dropWhile js_whitespace (rev (dropWhile js_whitespace s)))"

definition adminIds :: "config \<Rightarrow> string list" where
  "adminIds c = map trim (split_on (CHR '','') (ADMIN_IDS c))"

datatype admin_response =
    AdminOk      \<comment> \<open>200 \<^verbatim>\<open>{ok: true}\<close>\<close>
  | Forbidden    \<comment> \<open>403\<close>
  | BadAction    \<comment> \<open>400\<close>

datatype admin_pc =
    AdminUpdate string string
  | AdminDone admin_response

text \<open>Lines 129 to 134: the two checks, on the \<^verbatim>\<open>admin\<close> query parameter and on the
  \<^verbatim>\<open>:action\<close> path parameter, before the only await.\<close>

definition admin_start ::
  "('k, 'n) platform \<Rightarrow> config \<Rightarrow> 'n jsval \<Rightarrow> string \<Rightarrow> string \<Rightarrow> admin_pc" where
  "admin_start p c admin rid action =
     (if js_String (Number_toString p) admin \<notin> set (adminIds c) then AdminDone Forbidden
      else if action \<notin> set [''approve'', ''reject''] then AdminDone BadAction
      else AdminUpdate rid action)"

fun admin_step :: "admin_pc \<Rightarrow> store \<Rightarrow> admin_pc \<times> store" where
  "admin_step (AdminUpdate rid action) s =
     (AdminDone AdminOk,
      s\<lparr>withdraw_requests :=
          map (\<lambda>r. if request_id r = rid then r\<lparr>status := action\<rparr> else r)
            (withdraw_requests s)\<rparr>)"
| "admin_step (AdminDone r) s = (AdminDone r, s)"

subsection \<open>Requests in flight\<close>

text \<open>
  The event loop resumes one handler at a time, each time up to its next await. A
  schedule is the list of the handlers it resumes, by position; resuming a handler that
  is done changes nothing. The reward and withdraw handlers run behind the \<^verbatim>\<open>auth\<close>
  middleware, which gives them the \<^verbatim>\<open>uid\<close> of the token; the reward handler reads the
  clock once, after its first await, and carries the answer of the store to its update.
\<close>

datatype 'n request =
    AuthReq "string option"
  | RewardReq string int "string option"
  | WithdrawReq string withdraw_body
  | AdminReq "'n jsval" string string

datatype proc =
    PAuth auth_pc
  | PReward string int "string option" reward_pc
  | PWithdraw string withdraw_pc
  | PAdmin admin_pc

fun start :: "('k, 'n) platform \<Rightarrow> config \<Rightarrow> 'n request \<Rightarrow> proc" where
  "start p c (AuthReq initData) = PAuth (auth_start p c initData)"
| "start p c (RewardReq uid now uerr) = PReward uid now uerr RewardSelect"
| "start p c (WithdrawReq uid b) = PWithdraw uid (withdraw_start b)"
| "start p c (AdminReq admin rid action) = PAdmin (admin_start p c admin rid action)"

fun proc_step ::
  "('k, 'n) platform \<Rightarrow> config \<Rightarrow> schema \<Rightarrow> proc \<Rightarrow> store \<Rightarrow> proc \<times> store" where
  "proc_step p c sch (PAuth pc) s =
     (case auth_step p sch pc s of (pc', s') \<Rightarrow> (PAuth pc', s'))"
| "proc_step p c sch (PReward uid now uerr pc) s =
     (case reward_step c uid now uerr pc s of (pc', s') \<Rightarrow> (PReward uid now uerr pc', s'))"
| "proc_step p c sch (PWithdraw uid pc) s =
     (case withdraw_step c sch uid pc s of (pc', s') \<Rightarrow> (PWithdraw uid pc', s'))"
| "proc_step p c sch (PAdmin pc) s =
     (case admin_step pc s of (pc', s') \<Rightarrow> (PAdmin pc', s'))"

definition sys_step ::
  "('k, 'n) platform \<Rightarrow> config \<Rightarrow> schema \<Rightarrow> store \<times> proc list \<Rightarrow> nat
     \<Rightarrow> store \<times> proc list" where
  "sys_step p c sch cfg i =
     (case cfg of
        (s, ps) \<Rightarrow>
          if i < length ps
          then (case proc_step p c sch (ps ! i) s of (q, s') \<Rightarrow> (s', ps[i := q]))
          else (s, ps))"

definition run ::
  "('k, 'n) platform \<Rightarrow> config \<Rightarrow> schema \<Rightarrow> nat list \<Rightarrow> store \<times> proc list
     \<Rightarrow> store \<times> proc list" where
  "run p c sch sched cfg = foldl (sys_step p c sch) cfg sched"

text \<open>One request served alone, from its start to its answer (no handler has more than
  four awaits), and a list of requests served one after the other.\<close>

definition serve ::
  "('k, 'n) platform \<Rightarrow> config \<Rightarrow> schema \<Rightarrow> 'n request \<Rightarrow> store \<Rightarrow> proc \<times> store" where
  "serve p c sch req s =
     (case run p c sch [0, 0, 0, 0] (s, [start p c req]) of (s', ps) \<Rightarrow> (hd ps, s'))"

definition serve_all ::
  "('k, 'n) platform \<Rightarrow> config \<Rightarrow> schema \<Rightarrow> 'n request list \<Rightarrow> store \<Rightarrow> store" where
  "serve_all p c sch reqs s = foldl (\<lambda>s req. snd (serve p c sch req s)) s reqs"

subsection \<open>Properties the specification names\<close>

text \<open>
  The canonical string in the specification's words: leave the signature field out, sort
  the remaining fields by key, one \<open>key=value\<close> line for each, lines separated by a
  newline. The fields are a finite map from keys to values.
\<close>

definition canonical_string :: "(string \<rightharpoonup> string) \<Rightarrow> string" where
  "canonical_string flds =
     join [CHR 0x0A]
       (map (\<lambda>k. k @ ''='' @ the (flds k))
          (sorted_list_of_set (dom flds - {''hash''})))"


text \<open>
  The values a binary64 number can have (with no upper limit on the exponent, since
  infinities are not represented).
\<close>

definition representable :: "rat \<Rightarrow> bool" where
  "representable y = (\<exists>m e. y = of_int m * 2 powi e \<and> \<bar>m\<bar> < 2 ^ 53 \<and> - 1074 \<le> e)"


text \<open>Every call of the list passes the cooldown, each after the one before it.\<close>

fun all_admitted :: "rat \<Rightarrow> int option \<Rightarrow> int list \<Rightarrow> bool" where
  "all_admitted cd last' [] = True"
| "all_admitted cd last' (t # ts) =
     (cooldown_left cd t last' = None \<and> all_admitted cd (Some t) ts)"

subsection \<open>An instance for evaluation\<close>

text \<open>
  A small instance of the library record and of the configuration, to run the model on
  concrete requests: the query string is cut at \<^verbatim>\<open>&\<close> and at the first \<^verbatim>\<open>=\<close> of
  each piece (no escapes), the keyed hash is the key followed by the message on one
  line, and the JSON parser knows \<^verbatim>\<open>{}\<close> and \<^verbatim>\<open>null\<close>.
\<close>

definition cut_at_eq :: "string \<Rightarrow> string \<times> string" where
  "cut_at_eq s = (takeWhile (\<lambda>ch. ch \<noteq> CHR ''='') s, drop 1 (dropWhile (\<lambda>ch. ch \<noteq> CHR ''='') s))"

definition example_platform :: "(string, int) platform" where
  "example_platform =
     \<lparr> sha256 = (\<lambda>s. ''#'' @ s),
       createHmac_hex =
         (\<lambda>k m. k @ '':'' @ map (\<lambda>ch. if ch = CHR 0x0A then CHR ''/'' else ch) m),
       URLSearchParams = (\<lambda>s. map cut_at_eq (filter (\<lambda>x. x \<noteq> []) (split_on (CHR ''&'') s))),
       JSON_parse =
         (\<lambda>s. if s = ''{}'' then Some (JObj [])
              else if s = ''null'' then Some JNull else None),
       Number_toString = (\<lambda>n. if n = 0 then ''0'' else ''1''),
       Number_truthy = (\<lambda>n. n \<noteq> 0),
       jwt_sign = (\<lambda>uid. ''jwt.'' @ uid) \<rparr>"

definition example_config :: config where
  "example_config =
     \<lparr> BOT_TOKEN = ''T'', COOLDOWN_SEC = 10, REWARD_PER_AD = 10,
       COINS_PER_USDT = 100, MIN_WITHDRAW_USDT = 20, ADMIN_IDS = ''7, 8'' \<rparr>"

definition example_schema :: schema where
  "example_schema =
     \<lparr> balance_default = Some 0, last_ad_at_default = None, status_default = ''pending'',
       new_request_id = (\<lambda>rs. replicate (length rs) (CHR ''i'')) \<rparr>"

definition example_user :: "int \<Rightarrow> user_row" where
  "example_user b =
     \<lparr> id' = ''u'', name = ''Guest'', username = [], email = [],
       balance = Some b, last_ad_at = None \<rparr>"

definition example_store :: "int \<Rightarrow> store" where
  "example_store b =
     \<lparr> users = [''u'' \<mapsto> example_user b], ad_events = [], withdraw_requests = [] \<rparr>"

definition example_request :: "string \<Rightarrow> withdraw_request" where
  "example_request st =
     \<lparr> request_id = ''i'', user_id = ''u'', method' = ''bank'', account = ''acct'',
       amount_coins = 2000, status = st \<rparr>"

definition example_body :: "int \<Rightarrow> withdraw_body" where
  "example_body n =
     \<lparr> body_method = Some ''bank'', body_account = Some ''acct'', body_amount_coins = Some n \<rparr>"


section \<open>Theorems\<close>

subsection \<open>The verifier\<close>

text \<open>
  The object \<^verbatim>\<open>Object.fromEntries\<close> builds has one entry for each key, and maps a key to
  the value of its last entry in the input.
\<close>

lemma obj_set_keys: "fst ` set (obj_set obj k v) = insert k (fst ` set obj)"
  by (induction obj k v rule: obj_set.induct) auto

lemma obj_set_distinct:
  "distinct (map fst obj) \<Longrightarrow> distinct (map fst (obj_set obj k v))"
proof (induction obj k v rule: obj_set.induct)
  case (1 k v)
  then show ?case by simp
next
  case (2 k' v' kvs k v)
  then show ?case
    using obj_set_keys [of kvs k v] by (auto simp: image_iff)
qed

lemma map_of_obj_set: "map_of (obj_set obj k v) = (map_of obj)(k \<mapsto> v)"
  by (induction obj k v rule: obj_set.induct) (auto simp: fun_upd_twist)

lemma foldl_obj_set_distinct:
  "distinct (map fst acc) \<Longrightarrow>
   distinct (map fst (foldl (\<lambda>obj (k, v). obj_set obj k v) acc es))"
  by (induction es arbitrary: acc) (auto simp: obj_set_distinct)

lemma Object_fromEntries_distinct: "distinct (map fst (Object_fromEntries es))"
  by (simp add: Object_fromEntries_def foldl_obj_set_distinct)

lemma map_of_foldl_obj_set:
  "map_of (foldl (\<lambda>obj (k, v). obj_set obj k v) acc es) = map_of acc ++ map_of (rev es)"
proof (induction es arbitrary: acc)
  case Nil
  then show ?case by simp
next
  case (Cons e es)
  obtain k v where e: "e = (k, v)" by (cases e)
  have "map_of (obj_set acc k v) ++ map_of (rev es) =
        map_of acc ++ map_of (rev es @ [(k, v)])"
    by (rule ext) (simp add: map_of_obj_set map_add_def split: option.splits)
  then show ?case
    by (simp add: e Cons.IH)
qed

lemma map_of_Object_fromEntries: "map_of (Object_fromEntries es) = map_of (rev es)"
  by (simp add: Object_fromEntries_def map_of_foldl_obj_set)

text \<open>
  The string the code signs is the canonical string of the parsed fields, and the verifier
  looks at the parsed object only through the map from its keys to its values.
\<close>

lemma map_of_rest_without_hash:
  "map_of (rest_without_hash obj) k = (if k = ''hash'' then None else map_of obj k)"
  unfolding rest_without_hash_def by (induction obj) auto

lemma keys_rest_without_hash:
  "Object_keys (rest_without_hash obj) = filter (\<lambda>k. k \<noteq> ''hash'') (map fst obj)"
  unfolding rest_without_hash_def Object_keys_def by (induction obj) auto

lemma sort_keys_rest:
  assumes "distinct (map fst obj)"
  shows "sort (Object_keys (rest_without_hash obj)) =
         sorted_list_of_set (dom (map_of obj) - {''hash''})"
proof -
  let ?ks = "filter (\<lambda>k. k \<noteq> ''hash'') (map fst obj)"
  have "distinct ?ks" using assms by simp
  moreover have "set ?ks = dom (map_of obj) - {''hash''}"
    by (auto simp: dom_map_of_conv_image_fst)
  ultimately show ?thesis
    by (metis keys_rest_without_hash sorted_list_of_set_sort_remdups distinct_remdups_id)
qed

lemma dataCheckString_canonical:
  assumes "distinct (map fst obj)"
  shows "dataCheckString (rest_without_hash obj) = canonical_string (map_of obj)"
proof -
  let ?ks = "sorted_list_of_set (dom (map_of obj) - {''hash''})"
  have fin: "finite (dom (map_of obj) - {''hash''})" by (simp add: finite_dom_map_of)
  have eq: "map (\<lambda>k. k @ ''='' @ (case map_of (rest_without_hash obj) k of
                                None \<Rightarrow> ''undefined'' | Some v \<Rightarrow> v)) ?ks
      = map (\<lambda>k. k @ ''='' @ the (map_of obj k)) ?ks"
  proof (rule map_cong [OF refl])
    fix k assume "k \<in> set ?ks"
    then have "k \<in> dom (map_of obj)" and "k \<noteq> ''hash''"
      using fin by auto
    then show "k @ ''='' @ (case map_of (rest_without_hash obj) k of
                                None \<Rightarrow> ''undefined'' | Some v \<Rightarrow> v)
        = k @ ''='' @ the (map_of obj k)"
      by (auto simp: map_of_rest_without_hash)
  qed
  show ?thesis
    unfolding dataCheckString_def canonical_string_def sort_keys_rest [OF assms] eq ..
qed

lemma verify_by_fields:
  "verifyTelegramInitData p c d =
     (let flds = map_of (Object_fromEntries (URLSearchParams p d)) in
      if flds ''hash'' \<noteq> Some (createHmac_hex p (sha256 p (BOT_TOKEN c)) (canonical_string flds))
      then Inr None
      else
        (case JSON_parse p
                (case flds ''user'' of None \<Rightarrow> ''{}'' | Some u \<Rightarrow> if u = [] then ''{}'' else u) of
           None \<Rightarrow> Inl SyntaxError
         | Some user \<Rightarrow>
             (case make_identity p user of Inl e \<Rightarrow> Inl e | Inr i \<Rightarrow> Inr (Some i))))"
  by (auto simp: verifyTelegramInitData_def Let_def SECRET_KEY_def map_of_rest_without_hash
      dataCheckString_canonical [OF Object_fromEntries_distinct])




lemma map_of_permuted:
  assumes "mset es' = mset es" and "distinct (map fst es)"
  shows "map_of (rev es') = map_of (rev es)"
proof -
  have "mset (map fst es') = mset (map fst es)" using assms(1) by (metis mset_map)
  then have "distinct (map fst es')" using assms(2) by (metis mset_eq_imp_distinct_iff)
  moreover have "set es' = set es" using assms(1) by (rule mset_eq_setD)
  ultimately show ?thesis
    using assms(2) by (simp add: map_of_inject_set distinct_rev rev_map [symmetric])
qed







text \<open>
  Claim C7, amended. For every payload whose field keys are pairwise distinct, permuting
  the order in which the fields appear in the input leaves the canonical string, hence
  the computed signature and the outcome of the verification, unchanged.
\<close>

theorem canonical_order_independent:
  assumes "mset (URLSearchParams p d') = mset (URLSearchParams p d)"
    and "distinct (map fst (URLSearchParams p d))"
  shows "dataCheckString (rest_without_hash (Object_fromEntries (URLSearchParams p d')))
       = dataCheckString (rest_without_hash (Object_fromEntries (URLSearchParams p d)))
   \<and> createHmac_hex p (SECRET_KEY p c)
        (dataCheckString (rest_without_hash (Object_fromEntries (URLSearchParams p d'))))
       = createHmac_hex p (SECRET_KEY p c)
        (dataCheckString (rest_without_hash (Object_fromEntries (URLSearchParams p d))))
   \<and> verifyTelegramInitData p c d' = verifyTelegramInitData p c d"
proof -
  have "map_of (Object_fromEntries (URLSearchParams p d'))
      = map_of (Object_fromEntries (URLSearchParams p d))"
    by (simp add: map_of_Object_fromEntries map_of_permuted [OF assms])
  then show ?thesis
    by (simp add: verify_by_fields dataCheckString_canonical [OF Object_fromEntries_distinct])
qed

theorem canonical_order_independent_witness:
  "verifyTelegramInitData example_platform example_config
      ''hash=#T:auth_date=1/user={}&user={}&auth_date=1''
   = verifyTelegramInitData example_platform example_config
      ''auth_date=1&user={}&hash=#T:auth_date=1/user={}''
   \<and> dataCheckString (rest_without_hash (Object_fromEntries
        (URLSearchParams example_platform ''hash=#T:auth_date=1/user={}&user={}&auth_date=1'')))
     = ''auth_date=1'' @ [CHR 0x0A] @ ''user={}''"
proof -
  have perm: "mset (URLSearchParams example_platform
        ''hash=#T:auth_date=1/user={}&user={}&auth_date=1'')
      = mset (URLSearchParams example_platform
        ''auth_date=1&user={}&hash=#T:auth_date=1/user={}'')"
    by (simp add: example_platform_def cut_at_eq_def)
  have dist: "distinct (map fst (URLSearchParams example_platform
        ''auth_date=1&user={}&hash=#T:auth_date=1/user={}''))"
    by (simp add: example_platform_def cut_at_eq_def)
  have ev: "dataCheckString (rest_without_hash (Object_fromEntries
        (URLSearchParams example_platform ''hash=#T:auth_date=1/user={}&user={}&auth_date=1'')))
     = ''auth_date=1'' @ [CHR 0x0A] @ ''user={}''"
    by (simp add: example_platform_def cut_at_eq_def Object_fromEntries_def
        rest_without_hash_def dataCheckString_def Object_keys_def)
  show ?thesis
    using canonical_order_independent [OF perm dist, of example_config] ev by simp
qed

text \<open>
  Claim C7 as stated fails on a payload that repeats a key: the parsed object keeps the
  value of the last occurrence, so the two orders of \<^verbatim>\<open>a=1\<close> and \<^verbatim>\<open>a=2\<close> have the
  canonical strings \<^verbatim>\<open>a=2\<close> and \<^verbatim>\<open>a=1\<close>, and a signature that verifies for one order
  does not verify for the other.
\<close>

theorem duplicate_keys_order_dependent:
  "mset [(''a'', ''1''), (''a'', ''2'')] = mset [(''a'', ''2''), (''a'', ''1'')]
   \<and> dataCheckString (rest_without_hash (Object_fromEntries [(''a'', ''1''), (''a'', ''2'')])) = ''a=2''
   \<and> dataCheckString (rest_without_hash (Object_fromEntries [(''a'', ''2''), (''a'', ''1'')])) = ''a=1''
   \<and> URLSearchParams example_platform ''a=1&a=2&hash=#T:a=2'' =
        [(''a'', ''1''), (''a'', ''2''), (''hash'', ''#T:a=2'')]
   \<and> URLSearchParams example_platform ''a=2&a=1&hash=#T:a=2'' =
        [(''a'', ''2''), (''a'', ''1''), (''hash'', ''#T:a=2'')]
   \<and> verifyTelegramInitData example_platform example_config ''a=1&a=2&hash=#T:a=2''
       = Inr (Some \<lparr>id' = ''undefined'', name = ''Guest'', username = [], email = []\<rparr>)
   \<and> verifyTelegramInitData example_platform example_config ''a=2&a=1&hash=#T:a=2'' = Inr None"
  by (simp add: verifyTelegramInitData_def example_platform_def example_config_def
      Object_fromEntries_def cut_at_eq_def rest_without_hash_def dataCheckString_def
      Object_keys_def SECRET_KEY_def make_identity_def)




subsection \<open>Authentication leaves the ledger columns alone\<close>

lemma users_upsert_row:
  assumes "users s uid = Some r"
  shows "users (users_upsert sch u s) uid =
     Some (if id' u = uid
           then r\<lparr>id' := id' u, name := name u, username := username u, email := email u\<rparr>
           else r)"
  using assms by (cases "users s (id' u)") (auto simp: users_upsert_def)

lemma users_upsert_others:
  "ad_events (users_upsert sch u s) = ad_events s"
  "withdraw_requests (users_upsert sch u s) = withdraw_requests s"
  by (cases "users s (id' u)"; simp add: users_upsert_def)+

lemma verify_example_no_user:
  "verifyTelegramInitData example_platform example_config ''auth_date=1&hash=#T:auth_date=1''
   = Inr (Some \<lparr>id' = ''undefined'', name = ''Guest'', username = [], email = []\<rparr>)"
  by (simp add: verifyTelegramInitData_def example_platform_def example_config_def
      Object_fromEntries_def cut_at_eq_def rest_without_hash_def dataCheckString_def
      Object_keys_def SECRET_KEY_def make_identity_def)

text \<open>
  Claim C10. For every user that exists already, \<^verbatim>\<open>POST /api/auth\<close> leaves the user's
  \<open>balance\<close> and \<open>last_ad_at\<close> as they were, whatever the request and its outcome. When the
  payload verifies, the handler answers with the token and the selected profile, and the
  row of the verified id has its four identity columns \<open>id\<close>, \<open>name\<close>, \<open>username\<close> and
  \<open>email\<close> overwritten and nothing else; every other row, the ad events and the withdraw
  requests are unchanged.
\<close>

theorem auth_frame:
  assumes "users s uid = Some r"
  shows "\<exists>r'. users (snd (api_auth p c sch initData s)) uid = Some r'
     \<and> balance r' = balance r \<and> last_ad_at r' = last_ad_at r
     \<and> (\<forall>d u. initData = Some d \<and> d \<noteq> [] \<and> verifyTelegramInitData p c d = Inr (Some u) \<longrightarrow>
          fst (api_auth p c sch initData s) =
            AuthDone (Inr (AuthOk (jwt_sign p (id' u))
              (users (snd (api_auth p c sch initData s)) (id' u))))
          \<and> r' = (if id' u = uid
                  then r\<lparr>id' := id' u, name := name u, username := username u, email := email u\<rparr>
                  else r))
     \<and> ad_events (snd (api_auth p c sch initData s)) = ad_events s
     \<and> withdraw_requests (snd (api_auth p c sch initData s)) = withdraw_requests s"
proof (cases "auth_start p c initData")
  case (AuthUpsert u)
  then have "\<And>d v. initData = Some d \<Longrightarrow> d \<noteq> [] \<Longrightarrow>
      verifyTelegramInitData p c d = Inr (Some v) \<Longrightarrow> v = u"
    by (simp add: auth_start_def)
  with AuthUpsert show ?thesis
    using assms by (auto simp: api_auth_def users_upsert_row users_upsert_others)
next
  case (AuthSelect u)
  then show ?thesis
    by (auto simp: auth_start_def split: option.splits if_splits sum.splits)
next
  case (AuthDone x)
  then show ?thesis
    using assms by (auto simp: api_auth_def auth_start_def split: option.splits if_splits sum.splits)
qed

theorem auth_frame_witness:
  "users (snd (api_auth example_platform example_config example_schema
      (Some ''auth_date=1&hash=#T:auth_date=1'')
      \<lparr>users = [''undefined'' \<mapsto> (example_user 50)\<lparr>last_ad_at := Some 7\<rparr>],
       ad_events = [], withdraw_requests = []\<rparr>)) ''undefined''
   = Some \<lparr>id' = ''undefined'', name = ''Guest'', username = [], email = [],
           balance = Some 50, last_ad_at = Some 7\<rparr>"
  using auth_frame [of
      "\<lparr>users = [''undefined'' \<mapsto> (example_user 50)\<lparr>last_ad_at := Some 7\<rparr>],
        ad_events = [], withdraw_requests = []\<rparr>"
      "''undefined''" "(example_user 50)\<lparr>last_ad_at := Some 7\<rparr>"
      example_platform example_config example_schema
      "Some ''auth_date=1&hash=#T:auth_date=1''"]
  by (simp add: verify_example_no_user example_user_def)

subsection \<open>Rounding to binary64\<close>

text \<open>
  The rounded value is a multiple of the last place that is nearest to the argument, and
  no representable value is nearer. So rounding is monotone around every representable
  value, and leaves a representable value as it is.
\<close>

lemma round_half_even_half: "\<bar>of_int (round_half_even t) - t\<bar> \<le> 1 / 2"
proof -
  have "of_int \<lfloor>t\<rfloor> \<le> t" "t < of_int \<lfloor>t\<rfloor> + 1" by linarith+
  then show ?thesis
    by (auto simp: round_half_even_def Let_def abs_le_iff)
qed

lemma round_half_even_nearest: "\<bar>of_int (round_half_even t) - t\<bar> \<le> \<bar>of_int k - t\<bar>"
proof (cases "k = round_half_even t")
  case True
  then show ?thesis by simp
next
  case False
  then have "1 \<le> \<bar>k - round_half_even t\<bar>" by linarith
  then have "(1 :: rat) \<le> \<bar>of_int k - of_int (round_half_even t)\<bar>"
    by (metis of_int_1 of_int_abs of_int_diff of_int_le_iff)
  then show ?thesis using round_half_even_half [of t] by linarith
qed

lemma round_half_even_of_int [simp]: "round_half_even (of_int k) = k"
  by (simp add: round_half_even_def)

lemma two_powi_nonneg: "0 \<le> b \<Longrightarrow> (2 :: rat) powi b = 2 ^ nat b"
  by (rule power_int_nonneg_exp)

lemma two_powi_neg: "0 \<le> b \<Longrightarrow> (2 :: rat) powi (- b) = 1 / 2 ^ nat b"
  by (simp add: power_int_minus power_int_nonneg_exp inverse_eq_divide)

lemma floor_log2_lower:
  assumes "0 < x"
  shows "2 powi floor_log2 x \<le> x"
proof (cases "1 \<le> x")
  case True
  then have pos: "0 < \<lfloor>x\<rfloor>" by linarith
  from bitlen_bounds [OF pos] have "2 ^ nat (bitlen \<lfloor>x\<rfloor> - 1) \<le> \<lfloor>x\<rfloor>" by simp
  then have "(2 :: rat) ^ nat (bitlen \<lfloor>x\<rfloor> - 1) \<le> of_int \<lfloor>x\<rfloor>"
    by (metis of_int_le_iff of_int_numeral of_int_power)
  moreover have "1 \<le> bitlen \<lfloor>x\<rfloor>" using pos by (auto simp: bitlen_alt_def)
  ultimately have "2 powi (bitlen \<lfloor>x\<rfloor> - 1) \<le> (of_int \<lfloor>x\<rfloor> :: rat)"
    by (simp add: two_powi_nonneg)
  also have "\<dots> \<le> x" by linarith
  finally show ?thesis using True by (simp add: floor_log2_def)
next
  case False
  let ?y = "1 / x"
  let ?n = "\<lceil>?y\<rceil> - 1"
  have y: "1 < ?y" using False assms by simp
  then have pos: "0 < ?n" by linarith
  from bitlen_bounds [OF pos] have "?n < 2 ^ nat (bitlen ?n)" by simp
  then have "?n + 1 \<le> 2 ^ nat (bitlen ?n)" by linarith
  then have "(of_int (?n + 1) :: rat) \<le> 2 ^ nat (bitlen ?n)"
    by (metis of_int_le_iff of_int_numeral of_int_power)
  moreover have "?y \<le> of_int (?n + 1)" by simp
  ultimately have "?y \<le> 2 ^ nat (bitlen ?n)" by linarith
  then have "1 / 2 ^ nat (bitlen ?n) \<le> x"
    using assms by (simp add: field_simps)
  then show ?thesis
    using False by (simp add: floor_log2_def two_powi_neg [OF bitlen_nonneg])
qed

lemma floor_log2_upper:
  assumes "0 < x"
  shows "x < 2 powi (floor_log2 x + 1)"
proof (cases "1 \<le> x")
  case True
  then have pos: "0 < \<lfloor>x\<rfloor>" by linarith
  from bitlen_bounds [OF pos] have "\<lfloor>x\<rfloor> + 1 \<le> 2 ^ nat (bitlen \<lfloor>x\<rfloor>)" by simp
  then have "(of_int (\<lfloor>x\<rfloor> + 1) :: rat) \<le> 2 ^ nat (bitlen \<lfloor>x\<rfloor>)"
    by (metis of_int_le_iff of_int_numeral of_int_power)
  moreover have "x < of_int (\<lfloor>x\<rfloor> + 1)" by simp linarith
  ultimately have "x < 2 ^ nat (bitlen \<lfloor>x\<rfloor>)" by linarith
  then show ?thesis
    using True by (simp add: floor_log2_def two_powi_nonneg [OF bitlen_nonneg])
next
  case False
  let ?y = "1 / x"
  let ?n = "\<lceil>?y\<rceil> - 1"
  have y: "1 < ?y" using False assms by simp
  then have pos: "0 < ?n" by linarith
  have b1: "1 \<le> bitlen ?n" using pos by (auto simp: bitlen_alt_def)
  from bitlen_bounds [OF pos] have "2 ^ nat (bitlen ?n - 1) \<le> ?n" by simp
  then have "(2 :: rat) ^ nat (bitlen ?n - 1) \<le> of_int ?n"
    by (metis of_int_le_iff of_int_numeral of_int_power)
  moreover have "of_int ?n < ?y" by simp linarith
  ultimately have "2 ^ nat (bitlen ?n - 1) < ?y" by linarith
  then have "x < 1 / 2 ^ nat (bitlen ?n - 1)"
    using assms by (simp add: field_simps)
  moreover have "(2 :: rat) powi (- (bitlen ?n - 1)) = 1 / 2 ^ nat (bitlen ?n - 1)"
    using b1 by (intro two_powi_neg) simp
  ultimately have "x < 2 powi (- (bitlen ?n - 1))" by simp
  then show ?thesis
    using False by (simp add: floor_log2_def)
qed


lemma two_powi_add: "(2 :: rat) powi (a + b) = 2 powi a * 2 powi b"
  by (simp add: power_int_add)

lemma two_powi_diff_int:
  assumes "a \<le> b"
  shows "\<exists>k :: int. (2 :: rat) powi b = of_int k * 2 powi a"
proof -
  have "(2 :: rat) powi b = 2 powi (b - a) * 2 powi a"
    by (simp flip: two_powi_add)
  also have "(2 :: rat) powi (b - a) = of_int (2 ^ nat (b - a))"
    using assms by (simp add: two_powi_nonneg)
  finally show ?thesis by blast
qed

lemma binary64_nearest_multiple:
  "\<bar>binary64 x - x\<bar> \<le> \<bar>of_int k * 2 powi ulp_exp x - x\<bar>"
proof (cases "x = 0")
  case True
  then show ?thesis by (simp add: binary64_def)
next
  case False
  let ?q = "(2 :: rat) powi ulp_exp x"
  have q: "0 < ?q" by simp
  have "\<bar>of_int (round_half_even (x / ?q)) - x / ?q\<bar> \<le> \<bar>of_int k - x / ?q\<bar>"
    by (rule round_half_even_nearest)
  then have "\<bar>of_int (round_half_even (x / ?q)) - x / ?q\<bar> * ?q \<le> \<bar>of_int k - x / ?q\<bar> * ?q"
    using q by (simp add: mult_right_mono)
  moreover have "\<bar>of_int j - x / ?q\<bar> * ?q = \<bar>of_int j * ?q - x\<bar>" for j :: int
  proof -
    have "\<bar>of_int j - x / ?q\<bar> * ?q = \<bar>(of_int j - x / ?q) * ?q\<bar>"
      using q by (simp add: abs_mult)
    also have "(of_int j - x / ?q) * ?q = of_int j * ?q - x"
      using q by (simp add: field_simps)
    finally show ?thesis .
  qed
  ultimately show ?thesis using False by (simp add: binary64_def)
qed

lemma representable_multiple_or_small:
  assumes "representable y" and "x \<noteq> 0"
  shows "(\<exists>k :: int. y = of_int k * 2 powi ulp_exp x) \<or>
         (\<bar>y\<bar> < 2 powi floor_log2 \<bar>x\<bar> \<and> ulp_exp x = floor_log2 \<bar>x\<bar> - 52)"
proof -
  from assms(1) obtain m e where y: "y = of_int m * 2 powi e" and m: "\<bar>m\<bar> < 2 ^ 53"
    and e: "- 1074 \<le> e" by (auto simp: representable_def)
  show ?thesis
  proof (cases "ulp_exp x \<le> e")
    case True
    from two_powi_diff_int [OF True] obtain k :: int
      where "(2 :: rat) powi e = of_int k * 2 powi ulp_exp x" by blast
    then have "y = of_int (m * k) * 2 powi ulp_exp x" using y by simp
    then show ?thesis by blast
  next
    case False
    then have u: "ulp_exp x = floor_log2 \<bar>x\<bar> - 52" and lt: "e < floor_log2 \<bar>x\<bar> - 52"
      using e by (auto simp: ulp_exp_def max_def split: if_splits)
    have "\<bar>m\<bar> \<le> 2 ^ 53 - 1" using m by simp
    then have "(of_int \<bar>m\<bar> :: rat) \<le> of_int (2 ^ 53 - 1)" by (simp only: of_int_le_iff)
    then have m': "(of_int \<bar>m\<bar> :: rat) < 2 powi 53" by simp
    have "\<bar>y\<bar> = of_int \<bar>m\<bar> * 2 powi e" using y by (simp add: abs_mult)
    also have "\<dots> < 2 powi 53 * 2 powi e" using m' by (simp add: mult_strict_right_mono)
    also have "\<dots> = 2 powi (53 + e)" by (simp only: two_powi_add)
    also have "\<dots> \<le> 2 powi floor_log2 \<bar>x\<bar>"
      using lt by (intro power_int_increasing) simp_all
    finally show ?thesis using u by blast
  qed
qed

lemma binary64_nearest:
  assumes "representable y"
  shows "\<bar>binary64 x - x\<bar> \<le> \<bar>y - x\<bar>"
proof (cases "x = 0")
  case True
  then show ?thesis by (simp add: binary64_def)
next
  case False
  from representable_multiple_or_small [OF assms False]
  show ?thesis
  proof
    assume "\<exists>k :: int. y = of_int k * 2 powi ulp_exp x"
    then show ?thesis using binary64_nearest_multiple [of x] by blast
  next
    assume a: "\<bar>y\<bar> < 2 powi floor_log2 \<bar>x\<bar> \<and> ulp_exp x = floor_log2 \<bar>x\<bar> - 52"
    let ?L = "floor_log2 \<bar>x\<bar>"
    have lo: "2 powi ?L \<le> \<bar>x\<bar>" using False by (intro floor_log2_lower) simp
    have "ulp_exp x \<le> ?L" using a by simp
    from two_powi_diff_int [OF this] obtain k :: int
      where k: "(2 :: rat) powi ?L = of_int k * 2 powi ulp_exp x" by blast
    show ?thesis
    proof (cases "0 < x")
      case True
      have "\<bar>binary64 x - x\<bar> \<le> \<bar>of_int k * 2 powi ulp_exp x - x\<bar>"
        by (rule binary64_nearest_multiple)
      also have "\<dots> = \<bar>2 powi ?L - x\<bar>" by (simp only: k)
      also have "\<dots> \<le> \<bar>y - x\<bar>" using a lo True by linarith
      finally show ?thesis .
    next
      case neg: False
      have "\<bar>binary64 x - x\<bar> \<le> \<bar>of_int (- k) * 2 powi ulp_exp x - x\<bar>"
        by (rule binary64_nearest_multiple)
      also have "of_int (- k) * 2 powi ulp_exp x = - ((2 :: rat) powi ?L)"
        by (simp only: k of_int_minus mult_minus_left)
      also have "\<bar>- (2 powi ?L) - x\<bar> \<le> \<bar>y - x\<bar>" using a lo neg by linarith
      finally show ?thesis .
    qed
  qed
qed

lemma binary64_ge:
  assumes "representable a" and "a \<le> x"
  shows "a \<le> binary64 x"
  using binary64_nearest [OF assms(1), of x] assms(2) by linarith

lemma binary64_le:
  assumes "representable b" and "x \<le> b"
  shows "binary64 x \<le> b"
  using binary64_nearest [OF assms(1), of x] assms(2) by linarith

lemma binary64_exact:
  assumes "representable y"
  shows "binary64 y = y"
  using binary64_nearest [OF assms, of y] by simp


lemma binary64_representable: "representable (binary64 x)"
proof (cases "x = 0")
  case True
  have "(0 :: rat) = of_int 0 * 2 powi 0" by simp
  then show ?thesis using True unfolding binary64_def representable_def
    by (metis abs_zero zero_less_numeral zero_less_power neg_le_0_iff_le zero_le_numeral)
next
  case False
  let ?e = "ulp_exp x"
  let ?q = "(2 :: rat) powi ?e"
  let ?n = "round_half_even (x / ?q)"
  have q: "0 < ?q" by simp
  have e: "- 1074 \<le> ?e" by (simp add: ulp_exp_def)
  have "\<bar>x\<bar> < 2 powi (floor_log2 \<bar>x\<bar> + 1)" using False by (intro floor_log2_upper) simp
  also have "\<dots> \<le> 2 powi (53 + ?e)"
    by (intro power_int_increasing) (simp_all add: ulp_exp_def)
  also have "\<dots> = 2 powi 53 * ?q" by (simp only: two_powi_add)
  finally have "\<bar>x\<bar> / ?q < 2 powi 53" using q by (simp add: field_simps)
  then have t: "\<bar>x / ?q\<bar> < 2 ^ 53" using q by simp
  have "\<bar>of_int ?n - x / ?q\<bar> \<le> \<bar>of_int k - x / ?q\<bar>" for k :: int
    by (rule round_half_even_nearest)
  have n: "\<bar>?n\<bar> \<le> 2 ^ 53"
  proof (rule ccontr)
    assume "\<not> \<bar>?n\<bar> \<le> 2 ^ 53"
    then have "2 ^ 53 + 1 \<le> \<bar>?n\<bar>" by simp
    then have "(of_int (2 ^ 53 + 1) :: rat) \<le> of_int \<bar>?n\<bar>" by (simp only: of_int_le_iff)
    then have big: "(2 :: rat) ^ 53 + 1 \<le> \<bar>of_int ?n\<bar>" by simp
    have "\<bar>of_int ?n - x / ?q\<bar> \<le> 1 / 2" by (rule round_half_even_half)
    with big t show False by linarith
  qed
  have y: "binary64 x = of_int ?n * ?q" using False by (simp add: binary64_def)
  show ?thesis
  proof (cases "\<bar>?n\<bar> < 2 ^ 53")
    case True
    then show ?thesis unfolding representable_def using y e by blast
  next
    case False
    then have "?n = 2 ^ 53 \<or> ?n = - (2 ^ 53)" using n by linarith
    then have "of_int ?n * ?q = of_int (?n div 2) * 2 powi (?e + 1) \<and> \<bar>?n div 2\<bar> < 2 ^ 53"
      by (auto simp: two_powi_add)
    then show ?thesis unfolding representable_def using y e
      by (metis add_increasing2 zero_le_one)
  qed
qed

lemma representable_int: "\<bar>m\<bar> < 9007199254740992 \<Longrightarrow> representable (of_int m)"
  unfolding representable_def by (rule exI [of _ m], rule exI [of _ 0]) simp

subsection \<open>The cooldown gate\<close>

text \<open>
  The elapsed milliseconds are an integer that a double holds exactly. Their quotient by
  1000 is rounded, and lies between the same multiples of \<open>1/1024\<close> as the exact
  quotient; so against a whole number of seconds the comparison and the ceiling come out
  as with the exact quotient.
\<close>

lemma representable_1024:
  "\<bar>m\<bar> < 9007199254740992 \<Longrightarrow> representable (of_int m / 1024)"
  unfolding representable_def
  by (rule exI [of _ m], rule exI [of _ "- 10"]) (simp add: power_int_minus field_simps)

lemma elapsed_exact_or_bracketed:
  assumes "\<bar>d\<bar> \<le> 8640000000000000"
  shows "(d mod 1000 = 0 \<and> binary64 (of_int d / 1000) = of_int (d div 1000)) \<or>
         (d mod 1000 \<noteq> 0 \<and>
          of_int (d div 1000) + 1 / 1024 \<le> binary64 (of_int d / 1000) \<and>
          binary64 (of_int d / 1000) \<le> of_int (d div 1000) + 1 - 1 / 1024)"
proof -
  let ?j = "d div 1000" and ?r = "d mod 1000"
  have d: "d = 1000 * ?j + ?r" by simp
  have r: "0 \<le> ?r" "?r < 1000" by simp_all
  have j: "\<bar>?j\<bar> \<le> 8640000000001" using assms by linarith
  have "(of_int d :: rat) = 1000 * of_int ?j + of_int ?r"
    by (metis d of_int_add of_int_mult of_int_numeral)
  then have split: "(of_int d :: rat) / 1000 = of_int ?j + of_int ?r / 1000" by simp
  show ?thesis
  proof (cases "?r = 0")
    case True
    then have "(of_int d :: rat) / 1000 = of_int ?j" using split by simp
    moreover have "representable (of_int ?j)" using j by (intro representable_int) linarith
    ultimately show ?thesis using True by (simp add: binary64_exact)
  next
    case False
    then have "1 \<le> ?r" "?r \<le> 999" using r by linarith+
    then have rr: "(1 :: rat) \<le> of_int ?r" "(of_int ?r :: rat) \<le> 999"
      by (metis of_int_1 of_int_le_iff, metis of_int_le_iff of_int_numeral)
    have ra: "representable (of_int (1024 * ?j + 1) / 1024)"
      using j by (intro representable_1024) linarith
    have rb: "representable (of_int (1024 * ?j + 1023) / 1024)"
      using j by (intro representable_1024) linarith
    have "of_int (1024 * ?j + 1) / 1024 \<le> (of_int d :: rat) / 1000"
      using rr by (simp add: split field_simps)
    from binary64_ge [OF ra this]
    have lo: "of_int ?j + 1 / 1024 \<le> binary64 (of_int d / 1000)" by (simp add: field_simps)
    have "(of_int d :: rat) / 1000 \<le> of_int (1024 * ?j + 1023) / 1024"
      using rr by (simp add: split field_simps)
    from binary64_le [OF rb this]
    have hi: "binary64 (of_int d / 1000) \<le> of_int ?j + 1 - 1 / 1024" by (simp add: field_simps)
    show ?thesis using False lo hi by blast
  qed
qed

lemma ceiling_after_bracket:
  fixes C j :: int and x :: rat
  assumes C: "\<bar>C\<bar> \<le> 2147483648" and j: "\<bar>j\<bar> \<le> 8640000000001"
    and x: "of_int j + 1 / 1024 \<le> x" "x \<le> of_int j + 1 - 1 / 1024"
  shows "\<lceil>binary64 (of_int C - x)\<rceil> = C - j"
proof -
  have ra: "representable (of_int (1024 * (C - j - 1) + 1) / 1024)"
    using C j by (intro representable_1024) (simp add: abs_less_iff abs_le_iff)
  have rb: "representable (of_int (1024 * (C - j) - 1) / 1024)"
    using C j by (intro representable_1024) (simp add: abs_less_iff abs_le_iff)
  have "of_int (1024 * (C - j - 1) + 1) / 1024 \<le> of_int C - x"
    using x by (simp add: field_simps)
  from binary64_ge [OF ra this]
  have lo: "of_int (C - j) - 1 < binary64 (of_int C - x)" by (simp add: field_simps)
  have "of_int C - x \<le> of_int (1024 * (C - j) - 1) / 1024"
    using x by (simp add: field_simps)
  from binary64_le [OF rb this]
  have hi: "binary64 (of_int C - x) \<le> of_int (C - j)" by (simp add: field_simps)
  show ?thesis using lo hi by (intro ceiling_unique) simp_all
qed

lemma ceiling_after_exact:
  fixes C j :: int
  assumes C: "\<bar>C\<bar> \<le> 2147483648" and j: "\<bar>j\<bar> \<le> 8640000000001"
  shows "\<lceil>binary64 (of_int C - of_int j)\<rceil> = C - j"
proof -
  have "representable (of_int (C - j))"
    using C j by (intro representable_int) (simp add: abs_less_iff abs_le_iff)
  then have "binary64 (of_int C - of_int j) = of_int (C - j)"
    using binary64_exact [of "of_int (C - j)"] by simp
  then show ?thesis by simp
qed

lemma cooldown_left_integer:
  assumes now: "0 \<le> now" "now \<le> 8640000000000000"
    and l: "0 \<le> l" "l \<le> 8640000000000000"
    and C: "\<bar>C\<bar> \<le> 2147483648"
  shows "cooldown_left (binary64 (of_int C)) now (Some l) =
     (if (now - l) div 1000 < C then Some (C - (now - l) div 1000) else None)"
proof -
  define d where "d = now - l"
  define j where "j = d div 1000"
  define x where "x = binary64 (of_int d / 1000)"
  have d: "\<bar>d\<bar> \<le> 8640000000000000" using now l unfolding d_def by linarith
  have j: "\<bar>j\<bar> \<le> 8640000000001" using d unfolding j_def by linarith
  have Cx: "binary64 (of_int C) = of_int C"
    using C by (intro binary64_exact representable_int) linarith
  have "representable (of_int d)" using d by (intro representable_int) linarith
  then have "binary64 (of_int now - of_int l) = (of_int d :: rat)"
    using binary64_exact [of "of_int d"] by (simp add: d_def)
  then have el: "js_div (js_minus (of_int now) (of_int l)) 1000 = x"
    by (simp add: js_div_def js_minus_def x_def)
  have main: "(x < of_int C \<longleftrightarrow> j < C) \<and> (j < C \<longrightarrow> \<lceil>js_minus (of_int C) x\<rceil> = C - j)"
    using elapsed_exact_or_bracketed [OF d, folded j_def x_def]
  proof
    assume a: "d mod 1000 = 0 \<and> x = of_int j"
    then show ?thesis using ceiling_after_exact [OF C j] by (simp add: js_minus_def)
  next
    assume a: "d mod 1000 \<noteq> 0 \<and> of_int j + 1 / 1024 \<le> x \<and> x \<le> of_int j + 1 - 1 / 1024"
    have dec: "x < of_int C \<longleftrightarrow> j < C"
    proof
      assume "x < of_int C"
      then have "(of_int j :: rat) < of_int C" using a by linarith
      then show "j < C" by (simp only: of_int_less_iff)
    next
      assume "j < C"
      then have "j + 1 \<le> C" by simp
      then have "(of_int (j + 1) :: rat) \<le> of_int C" by (simp only: of_int_le_iff)
      then show "x < of_int C" using a by simp
    qed
    show ?thesis using dec ceiling_after_bracket [OF C j, of x] a by (simp add: js_minus_def)
  qed
  show ?thesis
    using main by (simp add: cooldown_left_def el Cx Let_def flip: d_def j_def)
qed


lemma elapsed_div_1000:
  fixes C d :: int
  shows "((of_int d :: rat) / 1000 < of_int C \<longleftrightarrow> d div 1000 < C)"
    and "\<lceil>(of_int C :: rat) - of_int d / 1000\<rceil> = C - d div 1000"
proof -
  have fl: "\<lfloor>(of_int d :: rat) / 1000\<rfloor> = d div 1000"
    using floor_divide_of_int_eq [of d 1000, where ?'a = rat] by simp
  show "((of_int d :: rat) / 1000 < of_int C \<longleftrightarrow> d div 1000 < C)"
    by (simp only: fl [symmetric] floor_less_iff)
  have "\<lceil>(of_int C :: rat) - of_int d / 1000\<rceil> = C - \<lfloor>(of_int d :: rat) / 1000\<rfloor>"
    by (simp add: ceiling_def)
  then show "\<lceil>(of_int C :: rat) - of_int d / 1000\<rceil> = C - d div 1000"
    by (simp only: fl)
qed

lemma cooldown_left_whole_seconds:
  assumes "\<bar>C\<bar> \<le> 2147483648"
    and "0 \<le> now" "now \<le> 8640000000000000"
    and "0 \<le> l" "l \<le> 8640000000000000"
  shows "cooldown_left (binary64 (of_int C)) now (Some l) =
     (if (of_int (now - l) :: rat) / 1000 < of_int C
      then Some \<lceil>(of_int C :: rat) - of_int (now - l) / 1000\<rceil> else None)"
  by (simp only: cooldown_left_integer [OF assms(2,3,4,5,1)] elapsed_div_1000)

lemma representable_grid:
  assumes "representable y"
  shows "\<exists>n :: int. y = of_int n * 2 powi (- 1074)"
proof -
  from assms obtain m e where y: "y = of_int m * 2 powi e" and e: "- 1074 \<le> e"
    unfolding representable_def by blast
  from two_powi_diff_int [OF e] obtain k :: int where k: "(2 :: rat) powi e = of_int k * 2 powi (- 1074)"
    by blast
  have "y = of_int (m * k) * 2 powi (- 1074)"
    by (simp only: y k of_int_mult mult.assoc)
  then show ?thesis by blast
qed

lemma binary64_diff_pos:
  assumes "representable a" and "representable b" and "b < a"
  shows "0 < binary64 (a - b)"
proof -
  define g :: rat where "g = 2 powi (- 1074)"
  have g: "0 < g" by (simp add: g_def)
  from representable_grid [OF assms(1)] obtain na :: int where na: "a = of_int na * g"
    unfolding g_def by blast
  from representable_grid [OF assms(2)] obtain nb :: int where nb: "b = of_int nb * g"
    unfolding g_def by blast
  have "of_int nb * g < of_int na * g" using assms(3) na nb by simp
  then have "(of_int nb :: rat) < of_int na" using g by (simp only: mult_less_cancel_right_pos)
  then have "nb + 1 \<le> na" by simp
  then have "(of_int (nb + 1) :: rat) \<le> of_int na" by (simp only: of_int_le_iff)
  then have "of_int (nb + 1) * g \<le> of_int na * g" using g by (simp only: mult_le_cancel_right_pos)
  then have step: "g \<le> a - b" by (simp add: na nb algebra_simps)
  have "representable g"
    unfolding representable_def g_def
    by (rule exI [of _ 1], rule exI [of _ "- 1074"]) simp
  from binary64_ge [OF this step] g show ?thesis by linarith
qed

lemma cooldown_left_pos:
  assumes "cooldown_left (binary64 cd) now last' = Some left"
  shows "0 < left"
proof -
  from assms obtain l where l: "last' = Some l"
    by (cases last') (simp_all add: cooldown_left_def)
  define e where "e = js_div (js_minus (of_int now) (of_int l)) 1000"
  have e: "representable e" by (simp add: e_def js_div_def binary64_representable)
  from assms l have lt: "e < binary64 cd" and left: "left = \<lceil>js_minus (binary64 cd) e\<rceil>"
    by (simp_all add: cooldown_left_def Let_def e_def split: if_splits)
  have "0 < js_minus (binary64 cd) e"
    unfolding js_minus_def by (rule binary64_diff_pos [OF binary64_representable e lt])
  then show ?thesis by (simp add: left)
qed

text \<open>
  Claim C5, amended. The gate works on binary64 numbers: the elapsed seconds are the
  rounded quotient of the elapsed milliseconds by 1000, and \<open>left\<close> is the ceiling of
  the rounded difference of the cooldown and the elapsed seconds. For every cooldown
  that is a whole number of seconds (of magnitude at most \<open>2^31\<close>), and every \<open>now\<close> and
  \<open>last_ad_at\<close> in the range of a date in milliseconds: the gate admits if and only if
  \<open>last_ad_at\<close> is absent or the elapsed seconds \<open>(now - last_ad_at) / 1000\<close> are at least
  the cooldown; otherwise it rejects with \<open>left\<close> the ceiling of the cooldown minus the
  elapsed seconds, both taken exactly. For every cooldown, whole or not, a rejection
  carries a strictly positive \<open>left\<close>, and an absent \<open>last_ad_at\<close> admits. The reward
  handler answers 429 with \<open>left\<close> exactly when the gate rejects with it. With a
  cooldown of 10 seconds: 5 seconds elapsed reject with 5 left, 10 seconds elapsed
  admit.
\<close>

theorem cooldown_gate:
  fixes C now :: int
  assumes "\<bar>C\<bar> \<le> 2147483648"
    and "0 \<le> now" "now \<le> 8640000000000000"
    and "\<forall>l. last' = Some l \<longrightarrow> 0 \<le> l \<and> l \<le> 8640000000000000"
  shows "(cooldown_left (binary64 (of_int C)) now last' = None \<longleftrightarrow>
      (last' = None \<or> (\<exists>l. last' = Some l \<and> (of_int C :: rat) \<le> of_int (now - l) / 1000)))
   \<and> (\<forall>left. cooldown_left (binary64 (of_int C)) now last' = Some left \<longrightarrow>
        (\<exists>l. last' = Some l \<and> left = \<lceil>(of_int C :: rat) - of_int (now - l) / 1000\<rceil> \<and> 0 < left))
   \<and> (\<forall>left. cooldown_left (binary64 cd) now last' = Some left \<longrightarrow> 0 < left)
   \<and> (\<forall>left. fst (reward_step c uid now uerr RewardSelect s) = RewardDone (Inr (RewardCooldown left)) \<longleftrightarrow>
        cooldown_left (binary64 (COOLDOWN_SEC c)) now
          (case users s uid of None \<Rightarrow> None | Some u \<Rightarrow> last_ad_at u) = Some left)
   \<and> (now + 10000 \<le> 8640000000000000 \<longrightarrow>
        cooldown_left (binary64 (of_int 10)) (now + 5000) (Some now) = Some 5 \<and>
        cooldown_left (binary64 (of_int 10)) (now + 10000) (Some now) = None)
   \<and> cooldown_left (binary64 cd) now None = None"
proof (intro conjI allI impI)
  show "cooldown_left (binary64 (of_int C)) now last' = None \<longleftrightarrow>
      (last' = None \<or> (\<exists>l. last' = Some l \<and> (of_int C :: rat) \<le> of_int (now - l) / 1000))"
  proof (cases last')
    case None
    then show ?thesis by (simp add: cooldown_left_def)
  next
    case (Some l)
    then have "0 \<le> l" "l \<le> 8640000000000000" using assms(4) by simp_all
    from cooldown_left_whole_seconds [OF assms(1,2,3) this] Some
    show ?thesis by (simp add: not_less)
  qed
next
  fix left assume a: "cooldown_left (binary64 (of_int C)) now last' = Some left"
  then obtain l where l: "last' = Some l" by (cases last') (simp_all add: cooldown_left_def)
  then have "0 \<le> l" "l \<le> 8640000000000000" using assms(4) by simp_all
  from cooldown_left_whole_seconds [OF assms(1,2,3) this] a l
  have blocked: "(of_int (now - l) :: rat) / 1000 < of_int C"
    and left: "left = \<lceil>(of_int C :: rat) - of_int (now - l) / 1000\<rceil>"
    by (simp_all split: if_splits)
  from blocked have "0 < \<lceil>(of_int C :: rat) - of_int (now - l) / 1000\<rceil>"
    by (simp add: ceiling_less_iff)
  with l left
  show "\<exists>l. last' = Some l \<and> left = \<lceil>(of_int C :: rat) - of_int (now - l) / 1000\<rceil> \<and> 0 < left"
    by simp
next
  fix left assume "cooldown_left (binary64 cd) now last' = Some left"
  then show "0 < left" by (rule cooldown_left_pos)
next
  fix left
  show "fst (reward_step c uid now uerr RewardSelect s) = RewardDone (Inr (RewardCooldown left)) \<longleftrightarrow>
        cooldown_left (binary64 (COOLDOWN_SEC c)) now
          (case users s uid of None \<Rightarrow> None | Some u \<Rightarrow> last_ad_at u) = Some left"
    by (auto simp: Let_def split: option.splits)
next
  assume t: "now + 10000 \<le> 8640000000000000"
  have c10: "\<bar>10 :: int\<bar> \<le> 2147483648" by simp
  show "cooldown_left (binary64 (of_int 10)) (now + 5000) (Some now) = Some 5"
    using cooldown_left_whole_seconds [OF c10, of "now + 5000" now] assms(2) t by simp
  show "cooldown_left (binary64 (of_int 10)) (now + 10000) (Some now) = None"
    using cooldown_left_whole_seconds [OF c10, of "now + 10000" now] assms(2) t by simp
next
  show "cooldown_left (binary64 cd) now None = None" by (simp add: cooldown_left_def)
qed

theorem cooldown_gate_witness:
  "cooldown_left (binary64 (of_int 10)) 5000 (Some 0) = Some 5
   \<and> cooldown_left (binary64 (of_int 10)) 10000 (Some 0) = None
   \<and> cooldown_left (binary64 (of_int 30)) 1700000012345 (Some 1700000000000) = Some 18
   \<and> cooldown_left (binary64 (1 / 2)) 1300 (Some 1000) = Some 1
   \<and> cooldown_left (binary64 (of_int 10)) 5000 None = None"
proof -
  have ev: ?thesis
    by code_simp
  have c10: "\<bar>10 :: int\<bar> \<le> 2147483648" and c30: "\<bar>30 :: int\<bar> \<le> 2147483648"
    by simp_all
  have n1: "(0 :: int) \<le> 5000" "(5000 :: int) \<le> 8640000000000000" by simp_all
  have n2: "(0 :: int) \<le> 1700000012345" "(1700000012345 :: int) \<le> 8640000000000000"
    by simp_all
  have l1: "\<forall>l. Some (0 :: int) = Some l \<longrightarrow> 0 \<le> l \<and> l \<le> 8640000000000000" by simp
  have l2: "\<forall>l. Some (1700000000000 :: int) = Some l \<longrightarrow> 0 \<le> l \<and> l \<le> 8640000000000000"
    by simp
  show ?thesis
    using cooldown_gate [OF c10 n1 l1, of "1 / 2"] cooldown_gate [OF c30 n2 l2, of 30]
    by - (rule ev)
qed

text \<open>
  Claim C5 as stated fails for a cooldown that is not a whole number of seconds. With a
  cooldown of 2.2 seconds and 1.2 seconds elapsed the exact difference is 1 second, so
  the claim's \<open>remaining\<close> is 1; the double nearest to 2.2 lies above it, the rounded
  difference lies above 1, and the handler answers 429 with 2 seconds left.
\<close>

theorem fractional_cooldown_rounds_up:
  "\<lceil>(11 / 5 :: rat) - of_int (1200 - 0) / 1000\<rceil> = 1
   \<and> cooldown_left (binary64 (11 / 5)) 1200 (Some 0) = Some 2
   \<and> fst (reward_step (example_config\<lparr>COOLDOWN_SEC := 11 / 5\<rparr>) ''u'' 1200 None RewardSelect
        \<lparr>users = [''u'' \<mapsto> (example_user 0)\<lparr>last_ad_at := Some 0\<rparr>],
         ad_events = [], withdraw_requests = []\<rparr>)
      = RewardDone (Inr (RewardCooldown 2))"
proof (intro conjI)
  show "\<lceil>(11 / 5 :: rat) - of_int (1200 - 0) / 1000\<rceil> = 1" by simp
  show "cooldown_left (binary64 (11 / 5)) 1200 (Some 0) = Some 2" by code_simp
  show "fst (reward_step (example_config\<lparr>COOLDOWN_SEC := 11 / 5\<rparr>) ''u'' 1200 None RewardSelect
        \<lparr>users = [''u'' \<mapsto> (example_user 0)\<lparr>last_ad_at := Some 0\<rparr>],
         ad_events = [], withdraw_requests = []\<rparr>)
      = RewardDone (Inr (RewardCooldown 2))" by code_simp
qed

subsection \<open>Withdrawal admission\<close>

lemma ToInt32_mod: "ToInt32 x = (x + 2147483648) mod 4294967296 - 2147483648"
  by (simp add: ToInt32_def int_word_sint)

lemma ToInt32_in_range:
  "- 2147483648 \<le> x \<Longrightarrow> x < 2147483648 \<Longrightarrow> ToInt32 x = x"
  by (simp add: ToInt32_mod)

lemma ToInt32_examples:
  "ToInt32 1999 = 1999" "ToInt32 2000 = 2000"
  "ToInt32 (- 4294964296) = 3000" "ToInt32 4294967301 = 5"
  by (simp_all add: ToInt32_mod)

text \<open>
  On amounts of the signed 32-bit range the two checks are the ones of the specification,
  in its order: below the minimum first, then the balance.
\<close>

lemma withdraw_admission_in_range:
  assumes "- 2147483648 \<le> n" and "n < 2147483648"
  shows "withdraw_admission c n (Some u) =
     (if n < COINS_PER_USDT c * MIN_WITHDRAW_USDT c
      then Some (Inr (BelowMinimum (COINS_PER_USDT c * MIN_WITHDRAW_USDT c)))
      else if or0 (balance u) < n then Some (Inr InsufficientBalance)
      else None)"
  using assms by (simp add: withdraw_admission_def ToInt32_in_range Let_def)

text \<open>
  Claim C6. Admission computes \<open>minCoins = rate * minUnits\<close>, rejects with BelowMinimum
  when \<open>amount_coins < minCoins\<close>, before the balance check, otherwise rejects with
  InsufficientBalance when \<open>amount_coins > balance\<close>, otherwise admits. With rate 100 and
  20 units the three amounts of the specification are answered as it says (the first
  three conjuncts). The code compares \<^verbatim>\<open>amount_coins|0\<close> with the minimum and the amount
  itself with the balance, so outside the signed 32-bit range it departs from the claim:
  the amount \<open>-4294964296\<close>, which is below the minimum, is admitted on a balance of 0
  and served to the end it leaves a pending request and a balance of 4294964296; the
  amount \<open>4294967301\<close>, which is above the minimum and within the balance, is answered
  BelowMinimum.
\<close>

theorem withdraw_admission_wraps:
  "withdraw_admission example_config 1999 (Some (example_user 5000)) = Some (Inr (BelowMinimum 2000))
   \<and> withdraw_admission example_config 2000 (Some (example_user 2000)) = None
   \<and> withdraw_admission example_config 2000 (Some (example_user 1999)) = Some (Inr InsufficientBalance)
   \<and> withdraw_admission example_config (- 4294964296) (Some (example_user 0)) = None
   \<and> withdraw_admission example_config 4294967301 (Some (example_user 5000000000))
       = Some (Inr (BelowMinimum 2000))
   \<and> serve example_platform example_config example_schema
        (WithdrawReq ''u'' (example_body (- 4294964296))) (example_store 0)
      = (PWithdraw ''u'' (WithdrawDone (Inr WithdrawOk)),
         \<lparr> users = [''u'' \<mapsto> example_user 4294964296], ad_events = [],
           withdraw_requests =
             [\<lparr> request_id = [], user_id = ''u'', method' = ''bank'', account = ''acct'',
                amount_coins = - 4294964296, status = ''pending'' \<rparr>] \<rparr>)"
  by (simp add: withdraw_admission_def ToInt32_examples example_config_def example_user_def
      or0_def serve_def run_def sys_step_def example_body_def withdraw_start_def
      example_store_def example_schema_def users_update_eq_def)

subsection \<open>The ledger under interleaving\<close>



lemma js_number_exact: "\<bar>i\<bar> < 9007199254740992 \<Longrightarrow> js_number i = of_int i"
  unfolding js_number_def by (rule binary64_exact [OF representable_int])

lemma js_number_floor: "\<bar>i\<bar> < 9007199254740992 \<Longrightarrow> \<lfloor>js_number i\<rfloor> = i"
  by (simp add: js_number_exact)


lemma reward_sum_exact:
  assumes "\<bar>b\<bar> < 9007199254740992" and "\<bar>r\<bar> < 9007199254740992"
    and "\<bar>b + r\<bar> < 9007199254740992"
  shows "reward_sum b r = b + r"
proof -
  have "binary64 (of_int (b + r)) = of_int (b + r)"
    by (rule binary64_exact [OF representable_int [OF assms(3)]])
  then show ?thesis
    by (simp add: reward_sum_def js_plus_def js_number_exact assms(1,2))
qed












text \<open>A reward and a debit served alone, from the first store call to the answer.\<close>

lemma serve_reward:
  assumes "users s uid = Some r"
  shows "serve p c sch (RewardReq uid now uerr) s =
     (case cooldown_left (binary64 (COOLDOWN_SEC c)) now (last_ad_at r) of
        Some left \<Rightarrow> (PReward uid now uerr (RewardDone (Inr (RewardCooldown left))), s)
      | None \<Rightarrow>
          (case uerr of
             Some msg \<Rightarrow> (PReward uid now uerr (RewardDone (Inr (RewardError msg))), s)
           | None \<Rightarrow>
               (PReward uid now uerr (RewardDone (Inr
                  (RewardOk (Some (reward_sum (or0 (balance r)) (REWARD_PER_AD c))) (Some now)))),
                s\<lparr>users := (users s)(uid \<mapsto>
                      r\<lparr>balance := Some (reward_sum (or0 (balance r)) (REWARD_PER_AD c)),
                        last_ad_at := Some now\<rparr>),
                  ad_events := ad_events s @ [(uid, \<lfloor>js_number (REWARD_PER_AD c)\<rfloor>)]\<rparr>)))"
  using assms
  by (cases "cooldown_left (binary64 (COOLDOWN_SEC c)) now (last_ad_at r)"; cases uerr)
     (simp_all add: serve_def run_def sys_step_def users_update_eq_def)

lemma serve_all_Cons:
  "serve_all p c sch (req # reqs) s = serve_all p c sch reqs (snd (serve p c sch req s))"
  by (simp add: serve_all_def)

lemma serve_all_rewards:
  "users s uid = Some r \<Longrightarrow> 0 \<le> or0 (balance r) \<Longrightarrow> 0 \<le> REWARD_PER_AD c \<Longrightarrow>
   or0 (balance r) + int (length nows) * REWARD_PER_AD c < 9007199254740992 \<Longrightarrow>
   all_admitted (binary64 (COOLDOWN_SEC c)) (last_ad_at r) nows \<Longrightarrow>
   \<exists>r'. users (serve_all p c sch (map (\<lambda>t. RewardReq uid t None) nows) s) uid = Some r'
      \<and> or0 (balance r') = or0 (balance r) + int (length nows) * REWARD_PER_AD c"
proof (induction nows arbitrary: s r)
  case Nil
  then show ?case by (simp add: serve_all_def)
next
  case (Cons t ts)
  define b where "b = or0 (balance r)"
  define R where "R = REWARD_PER_AD c"
  define n where "n = int (length ts)"
  have b: "0 \<le> b" and R: "0 \<le> R" and n: "0 \<le> n"
    using Cons.prems by (simp_all add: b_def R_def n_def)
  have bound: "b + (n + 1) * R < 9007199254740992"
    using Cons.prems(4) by (simp add: b_def R_def n_def algebra_simps)
  have nR: "0 \<le> n * R" using n R by simp
  have "b + R \<le> b + (n + 1) * R" using nR by (simp add: algebra_simps)
  then have small: "b + R < 9007199254740992" using bound by linarith
  have R_small: "R < 9007199254740992" using small b by linarith
  have b_small: "b < 9007199254740992" using small R by linarith
  have sum: "reward_sum b R = b + R"
    using b R small b_small R_small by (intro reward_sum_exact) simp_all
  let ?r1 = "r\<lparr>balance := Some (b + R), last_ad_at := Some t\<rparr>"
  let ?s1 = "snd (serve p c sch (RewardReq uid t None) s)"
  from Cons.prems have adm: "cooldown_left (binary64 (COOLDOWN_SEC c)) t (last_ad_at r) = None"
    and rest: "all_admitted (binary64 (COOLDOWN_SEC c)) (Some t) ts" by simp_all
  have s1: "users ?s1 uid = Some ?r1"
    by (simp add: serve_reward [OF Cons.prems(1)] adm sum [unfolded b_def R_def] b_def R_def)
  have p1: "0 \<le> or0 (balance ?r1)" using b R by (simp add: or0_def)
  have p2: "or0 (balance ?r1) + int (length ts) * REWARD_PER_AD c < 9007199254740992"
    using bound by (simp add: or0_def R_def n_def algebra_simps)
  have p3: "all_admitted (binary64 (COOLDOWN_SEC c)) (last_ad_at ?r1) ts" using rest by simp
  from Cons.IH [OF s1 p1 Cons.prems(3) p2 p3] obtain r' where
    r': "users (serve_all p c sch (map (\<lambda>t. RewardReq uid t None) ts) ?s1) uid = Some r'"
        "or0 (balance r') = or0 (balance ?r1) + int (length ts) * REWARD_PER_AD c"
    by blast
  show ?case
    using r' by (simp add: serve_all_Cons or0_def b_def R_def algebra_simps)
qed


text \<open>
  Claim C2, amended. The reward handler selects the user, evaluates the cooldown against
  the \<open>last_ad_at\<close> it read, and, if admitted, writes the sum of the balance it read and
  the reward, with \<open>last_ad_at = now\<close>, in a later store call of its own. Served with no
  other request between its store calls: a call that is not admitted answers 429 and
  changes nothing; an admitted call whose update the store answers with an error answers
  500 and changes nothing; any other admitted call writes that sum and its \<open>now\<close>, records
  one ad event and answers 200. The sum is the exact one when the balance, the reward and
  their sum are below \<open>2^53\<close> in magnitude. So \<open>N\<close> calls served one after the other, each
  admitted and none answered with an error, raise a non-negative balance by \<open>N\<close> times a
  non-negative reward as long as the result stays below \<open>2^53\<close> (with a reward of 1, from
  0 to \<open>N\<close>).
\<close>

theorem reward_credit_sequential:
  assumes "users s uid = Some r"
  shows "serve p c sch (RewardReq uid now uerr) s =
     (case cooldown_left (binary64 (COOLDOWN_SEC c)) now (last_ad_at r) of
        Some left \<Rightarrow> (PReward uid now uerr (RewardDone (Inr (RewardCooldown left))), s)
      | None \<Rightarrow>
          (case uerr of
             Some msg \<Rightarrow> (PReward uid now uerr (RewardDone (Inr (RewardError msg))), s)
           | None \<Rightarrow>
               (PReward uid now uerr (RewardDone (Inr
                  (RewardOk (Some (reward_sum (or0 (balance r)) (REWARD_PER_AD c))) (Some now)))),
                s\<lparr>users := (users s)(uid \<mapsto>
                      r\<lparr>balance := Some (reward_sum (or0 (balance r)) (REWARD_PER_AD c)),
                        last_ad_at := Some now\<rparr>),
                  ad_events := ad_events s @ [(uid, \<lfloor>js_number (REWARD_PER_AD c)\<rfloor>)]\<rparr>)))
   \<and> (\<bar>or0 (balance r)\<bar> < 9007199254740992 \<and> \<bar>REWARD_PER_AD c\<bar> < 9007199254740992 \<and>
       \<bar>or0 (balance r) + REWARD_PER_AD c\<bar> < 9007199254740992 \<longrightarrow>
        reward_sum (or0 (balance r)) (REWARD_PER_AD c) = or0 (balance r) + REWARD_PER_AD c \<and>
        \<lfloor>js_number (REWARD_PER_AD c)\<rfloor> = REWARD_PER_AD c)
   \<and> (0 \<le> or0 (balance r) \<and> 0 \<le> REWARD_PER_AD c \<and>
       or0 (balance r) + int (length nows) * REWARD_PER_AD c < 9007199254740992 \<and>
       all_admitted (binary64 (COOLDOWN_SEC c)) (last_ad_at r) nows \<longrightarrow>
        (\<exists>r'. users (serve_all p c sch (map (\<lambda>t. RewardReq uid t None) nows) s) uid = Some r'
           \<and> or0 (balance r') = or0 (balance r) + int (length nows) * REWARD_PER_AD c))"
  using serve_reward [OF assms] serve_all_rewards [OF assms]
  by (auto simp: reward_sum_exact js_number_floor)

theorem reward_credit_sequential_witness:
  "map_option balance
     (users (serve_all example_platform (example_config\<lparr>COOLDOWN_SEC := 0, REWARD_PER_AD := 1\<rparr>)
        example_schema (map (\<lambda>t. RewardReq ''u'' t None) [1000, 1000, 1000]) (example_store 0))
        ''u'')
   = Some (Some 3)
   \<and> fst (serve example_platform example_config example_schema
        (RewardReq ''u'' 1000 (Some ''down'')) (example_store 0))
     = PReward ''u'' 1000 (Some ''down'') (RewardDone (Inr (RewardError ''down'')))"
proof -
  have u: "users (example_store 0) ''u'' = Some (example_user 0)"
    by (simp add: example_store_def)
  have adm: "all_admitted
      (binary64 (COOLDOWN_SEC (example_config\<lparr>COOLDOWN_SEC := 0, REWARD_PER_AD := 1\<rparr>)))
      (last_ad_at (example_user 0)) [1000, 1000, 1000]"
    by code_simp
  have ev: ?thesis
    by code_simp
  show ?thesis
    using reward_credit_sequential [OF u, of example_platform
        "example_config\<lparr>COOLDOWN_SEC := 0, REWARD_PER_AD := 1\<rparr>" example_schema 1000 None
        "[1000, 1000, 1000]"] adm
      reward_credit_sequential [OF u, of example_platform example_config example_schema
        1000 "Some ''down''" "[]"]
    by - (rule ev)
qed

text \<open>
  Claim C2 as stated fails when two calls interleave at their awaits: with no cooldown
  and a reward of 1, two calls that both select the row before either updates it both
  answer 200, record two ad events, and leave the balance at 1, not 2. With the cooldown
  of 10 seconds and no earlier ad, two calls one millisecond apart are both admitted.
  And on a balance of \<open>2^53\<close> a reward of 1 writes the balance it read.
\<close>

lemma reward_sum_rounds: "reward_sum 9007199254740992 1 = 9007199254740992"
  by code_simp

theorem concurrent_rewards_lose_update:
  "run example_platform (example_config\<lparr>COOLDOWN_SEC := 0, REWARD_PER_AD := 1\<rparr>) example_schema
     [0, 1, 0, 1, 0, 1, 0, 1]
     (example_store 0,
      [start example_platform (example_config\<lparr>COOLDOWN_SEC := 0, REWARD_PER_AD := 1\<rparr>)
         (RewardReq ''u'' 1000 None),
       start example_platform (example_config\<lparr>COOLDOWN_SEC := 0, REWARD_PER_AD := 1\<rparr>)
         (RewardReq ''u'' 1000 None)])
   = (\<lparr> users = [''u'' \<mapsto> (example_user 1)\<lparr>last_ad_at := Some 1000\<rparr>],
        ad_events = [(''u'', 1), (''u'', 1)], withdraw_requests = [] \<rparr>,
      [PReward ''u'' 1000 None (RewardDone (Inr (RewardOk (Some 1) (Some 1000)))),
       PReward ''u'' 1000 None (RewardDone (Inr (RewardOk (Some 1) (Some 1000))))])
   \<and> run example_platform example_config example_schema
     [0, 1, 0, 1, 0, 1, 0, 1]
     (example_store 0,
      [start example_platform example_config (RewardReq ''u'' 1000 None),
       start example_platform example_config (RewardReq ''u'' 1001 None)])
   = (\<lparr> users = [''u'' \<mapsto> (example_user 10)\<lparr>last_ad_at := Some 1001\<rparr>],
        ad_events = [(''u'', 10), (''u'', 10)], withdraw_requests = [] \<rparr>,
      [PReward ''u'' 1000 None (RewardDone (Inr (RewardOk (Some 10) (Some 1001)))),
       PReward ''u'' 1001 None (RewardDone (Inr (RewardOk (Some 10) (Some 1001))))])
   \<and> reward_sum 9007199254740992 1 = 9007199254740992"
  by (simp add: run_def sys_step_def example_store_def example_user_def
        example_config_def cooldown_left_def or0_def users_update_eq_def
        reward_sum_exact js_number_floor reward_sum_rounds)




subsection \<open>The admin route\<close>

lemma adminIds_example: "adminIds example_config = [''7'', ''8'']"
  by (simp add: adminIds_def example_config_def trim_def js_whitespace_def)

lemma admin_start_checks:
  "(js_String (Number_toString p) admin \<notin> set (adminIds c) \<longrightarrow>
      admin_start p c admin rid action = AdminDone Forbidden)
   \<and> (js_String (Number_toString p) admin \<in> set (adminIds c) \<and>
        action \<noteq> ''approve'' \<and> action \<noteq> ''reject'' \<longrightarrow>
      admin_start p c admin rid action = AdminDone BadAction)
   \<and> (\<forall>r. admin_step (AdminDone r) s = (AdminDone r, s))"
  by (simp add: admin_start_def)

lemma adminIds_unset: "adminIds (example_config\<lparr>ADMIN_IDS := []\<rparr>) = [[]]"
  by (simp add: adminIds_def trim_def)

lemma adminIds_trailing_comma: "adminIds (example_config\<lparr>ADMIN_IDS := ''7,''\<rparr>) = [''7'', []]"
  by (simp add: adminIds_def trim_def js_whitespace_def)

text \<open>
  Claim C8 against the code. The handler answers Forbidden when \<^verbatim>\<open>String(admin)\<close> is
  not among the trimmed pieces of \<^verbatim>\<open>ADMIN_IDS\<close> cut at the commas, and BadAction for a
  caller among them with an action other than \<^verbatim>\<open>approve\<close> and \<^verbatim>\<open>reject\<close>. The pieces
  are not the configured allow-list: line 129 keeps the empty pieces, which line 11
  drops from the allowed origins with \<^verbatim>\<open>filter(Boolean)\<close>. With \<^verbatim>\<open>ADMIN_IDS\<close> unset
  the list is the one empty string, and with \<^verbatim>\<open>7,\<close> it is \<^verbatim>\<open>7\<close> and the empty string;
  a call with \<^verbatim>\<open>?admin=\<close>, the empty identity, which no configuration lists, is then
  not answered Forbidden: it passes both checks and rewrites the status of the request.
  An identity that is neither configured nor empty is answered Forbidden.
\<close>

theorem admin_gate_admits_empty_identity:
  "adminIds (example_config\<lparr>ADMIN_IDS := []\<rparr>) = [[]]
   \<and> admin_start example_platform (example_config\<lparr>ADMIN_IDS := []\<rparr>) (JStr []) ''i'' ''reject''
       = AdminUpdate ''i'' ''reject''
   \<and> serve example_platform (example_config\<lparr>ADMIN_IDS := []\<rparr>) example_schema
        (AdminReq (JStr []) ''i'' ''reject'')
        ((example_store 0)\<lparr>withdraw_requests := [example_request ''approve'']\<rparr>)
       = (PAdmin (AdminDone AdminOk),
          (example_store 0)\<lparr>withdraw_requests := [example_request ''reject'']\<rparr>)
   \<and> adminIds (example_config\<lparr>ADMIN_IDS := ''7,''\<rparr>) = [''7'', []]
   \<and> admin_start example_platform (example_config\<lparr>ADMIN_IDS := ''7,''\<rparr>) (JStr []) ''i'' ''approve''
       = AdminUpdate ''i'' ''approve''
   \<and> admin_start example_platform (example_config\<lparr>ADMIN_IDS := []\<rparr>) (JStr ''9'') ''i'' ''approve''
       = AdminDone Forbidden
   \<and> admin_start example_platform (example_config\<lparr>ADMIN_IDS := []\<rparr>) JUndefined ''i'' ''approve''
       = AdminDone Forbidden
   \<and> admin_start example_platform example_config (JStr []) ''i'' ''approve'' = AdminDone Forbidden
   \<and> admin_start example_platform example_config (JStr ''8'') ''i'' ''delete'' = AdminDone BadAction"
  by (simp add: admin_start_def adminIds_unset adminIds_trailing_comma adminIds_example
        serve_def run_def sys_step_def example_store_def example_request_def)

text \<open>
  Claim C9. For every withdraw request and every current status, also a terminal one, an
  approval call by a caller of the allow-list with the action \<^verbatim>\<open>approve\<close> or
  \<^verbatim>\<open>reject\<close> passes both checks, answers ok, and sets the status of every request with
  the given id to the action, with no look at the status it had; the other requests are
  left as they were.
\<close>

theorem approval_overwrites:
  assumes "js_String (Number_toString p) admin \<in> set (adminIds c)"
    and "action = ''approve'' \<or> action = ''reject''"
  shows "admin_start p c admin rid action = AdminUpdate rid action
   \<and> fst (admin_step (AdminUpdate rid action) s) = AdminDone AdminOk
   \<and> length (withdraw_requests (snd (admin_step (AdminUpdate rid action) s))) =
       length (withdraw_requests s)
   \<and> (\<forall>i < length (withdraw_requests s).
        withdraw_requests (snd (admin_step (AdminUpdate rid action) s)) ! i =
          (if request_id (withdraw_requests s ! i) = rid
           then (withdraw_requests s ! i)\<lparr>status := action\<rparr>
           else withdraw_requests s ! i))"
  using assms by (auto simp: admin_start_def)

theorem approval_overwrites_witness:
  "withdraw_requests (snd (admin_step
      (admin_start example_platform example_config (JStr ''7'') ''i'' ''reject'')
      ((example_store 0)\<lparr>withdraw_requests := [example_request ''approve'']\<rparr>)))
   = [example_request ''reject'']"
  using approval_overwrites [of example_platform "JStr ''7''" example_config "''reject''" "''i''"
      "(example_store 0)\<lparr>withdraw_requests := [example_request ''approve'']\<rparr>"]
  by (simp add: adminIds_example example_platform_def example_request_def example_store_def
        admin_start_def)


end
